theory Spec2Isabelle
  imports Complex_Main "HOL-Library.Char_ord" "HOL-Library.List_Lexorder"
begin

section \<open>Session store (lib/session/types.ts, lib/session/manager.ts)\<close>

text \<open>
  JavaScript values are modelled as follows. An optional property is an \<open>option\<close>;
  a \<open>Record<string, T>\<close> is a map \<open>string \<rightharpoonup> T\<close>; \<open>Date.now()\<close> is an explicit
  integer argument (milliseconds). The payloads fetched from the football API other than
  the fixture record are opaque to the orchestrator and are carried as strings.
\<close>

datatype SessionStatus = Pending | Generating | Completed | Error

record ChatMessage =
  role :: string
  content :: string
  timestamp :: int

record PartialReport =
  pr_categoryId :: string
  pr_signalId :: string
  pr_title :: string
  pr_insights :: "string list option"
  pr_narrative :: string
  pr_emoji :: string
  pr_confidence :: real

record ReportSection =
  sec_title :: string
  sec_content :: string
  sec_emoji :: string

record CategoryReport =
  cr_categoryId :: string
  cr_title :: string
  cr_sections :: "ReportSection list"
  cr_talkingPoints :: "string list"

text \<open>The fields of the fixture record that the orchestrator reads.\<close>

record FixtureData =
  homeTeamId :: int
  homeTeamName :: string
  awayTeamId :: int
  awayTeamName :: string
  leagueId :: int
  leagueSeason :: int
  leagueName :: string
  fixtureDate :: string

type_synonym payload = string

record CollectedData =
  fixture :: "FixtureData option"
  statistics :: "payload option"
  injuries :: "payload option"
  lineups :: "payload option"
  h2h :: "payload option"
  standings :: "payload option"

record Session =
  sessionId :: string
  fixtureId :: int
  createdAt :: int
  status :: SessionStatus
  error :: "string option"
  collectedData :: CollectedData
  partialReports :: "string \<rightharpoonup> PartialReport"
  categoryReports :: "string \<rightharpoonup> CategoryReport"
  finalReport :: "string option"
  chatHistory :: "ChatMessage list"

record UpdateSessionParams =
  u_status :: "SessionStatus option"
  u_error :: "string option"
  u_collectedData :: "CollectedData option"
  u_partialReport :: "(string \<times> PartialReport) option"
  u_categoryReport :: "(string \<times> CategoryReport) option"
  u_finalReport :: "string option"
  u_chatMessage :: "ChatMessage option"

text \<open>The update that carries nothing: \<open>{}\<close>.\<close>

definition noUpdate :: UpdateSessionParams where
  "noUpdate = \<lparr>u_status = None, u_error = None, u_collectedData = None,
     u_partialReport = None, u_categoryReport = None, u_finalReport = None,
     u_chatMessage = None\<rparr>"

definition emptyData :: CollectedData where
  "emptyData = \<lparr>fixture = None, statistics = None, injuries = None, lineups = None,
     h2h = None, standings = None\<rparr>"

record SessionManager =
  sessions :: "string \<rightharpoonup> Session"
  SESSION_TTL :: int

text \<open>\<open>createSession\<close>: the fresh identifier (\<open>randomUUID()\<close>) and the clock are arguments.\<close>

definition createSession :: "SessionManager \<Rightarrow> string \<Rightarrow> int \<Rightarrow> int \<Rightarrow> string \<times> SessionManager" where
  "createSession m uuid fid now =
     (uuid, m\<lparr>sessions := (sessions m)(uuid \<mapsto>
        \<lparr>sessionId = uuid, fixtureId = fid, createdAt = now, status = Pending,
         error = None, collectedData = emptyData, partialReports = Map.empty,
         categoryReports = Map.empty, finalReport = None, chatHistory = []\<rparr>)\<rparr>)"

definition deleteSession :: "SessionManager \<Rightarrow> string \<Rightarrow> bool \<times> SessionManager" where
  "deleteSession m sid = (sessions m sid \<noteq> None, m\<lparr>sessions := (sessions m)(sid := None)\<rparr>)"

text \<open>\<open>getSession\<close>: an expired session is deleted on read and reported as absent.\<close>

definition getSession :: "SessionManager \<Rightarrow> string \<Rightarrow> int \<Rightarrow> Session option \<times> SessionManager" where
  "getSession m sid now =
     (case sessions m sid of
        None \<Rightarrow> (None, m)
      | Some session \<Rightarrow>
          if now - createdAt session > SESSION_TTL m
          then (None, snd (deleteSession m sid))
          else (Some session, m))"

text \<open>
  The spread \<open>{...session.collectedData, ...updates.collectedData}\<close>: a fragment the
  update carries replaces the stored one, every other fragment is kept.
\<close>

definition orElse :: "'a option \<Rightarrow> 'a option \<Rightarrow> 'a option" where
  "orElse new old = (case new of Some v \<Rightarrow> Some v | None \<Rightarrow> old)"

definition spreadData :: "CollectedData \<Rightarrow> CollectedData \<Rightarrow> CollectedData" where
  "spreadData old new =
     \<lparr>fixture = orElse (fixture new) (fixture old),
      statistics = orElse (statistics new) (statistics old),
      injuries = orElse (injuries new) (injuries old),
      lineups = orElse (lineups new) (lineups old),
      h2h = orElse (h2h new) (h2h old),
      standings = orElse (standings new) (standings old)\<rparr>"

text \<open>
  The field assignments of \<open>updateSession\<close>, in source order. The guards are JavaScript
  truthiness tests: a status string and an object are truthy whenever present, a string
  (\<open>error\<close>, \<open>finalReport\<close>) only when it is not empty.
\<close>

definition truthyStr :: "string option \<Rightarrow> bool" where
  "truthyStr x = (case x of None \<Rightarrow> False | Some s \<Rightarrow> s \<noteq> [])"

definition applyUpdates :: "Session \<Rightarrow> UpdateSessionParams \<Rightarrow> Session" where
  "applyUpdates session updates =
     (let s1 = (case u_status updates of Some st \<Rightarrow> session\<lparr>status := st\<rparr> | None \<Rightarrow> session);
          s2 = (if truthyStr (u_error updates) then s1\<lparr>error := u_error updates\<rparr> else s1);
          s3 = (case u_collectedData updates of
                  Some cd \<Rightarrow> s2\<lparr>collectedData := spreadData (collectedData s2) cd\<rparr>
                | None \<Rightarrow> s2);
          s4 = (case u_partialReport updates of
                  Some (key, report) \<Rightarrow> s3\<lparr>partialReports := (partialReports s3)(key \<mapsto> report)\<rparr>
                | None \<Rightarrow> s3);
          s5 = (case u_categoryReport updates of
                  Some (key, report) \<Rightarrow> s4\<lparr>categoryReports := (categoryReports s4)(key \<mapsto> report)\<rparr>
                | None \<Rightarrow> s4);
          s6 = (if truthyStr (u_finalReport updates) then s5\<lparr>finalReport := u_finalReport updates\<rparr> else s5);
          s7 = (case u_chatMessage updates of
                  Some msg \<Rightarrow> s6\<lparr>chatHistory := chatHistory s6 @ [msg]\<rparr>
                | None \<Rightarrow> s6)
      in s7)"

definition updateSession :: "SessionManager \<Rightarrow> string \<Rightarrow> UpdateSessionParams \<Rightarrow> int \<Rightarrow> bool \<times> SessionManager" where
  "updateSession m sid updates now =
     (case getSession m sid now of
        (None, m') \<Rightarrow> (False, m')
      | (Some session, m') \<Rightarrow>
          (True, m'\<lparr>sessions := (sessions m')(sid \<mapsto> applyUpdates session updates)\<rparr>))"


section \<open>TTL cache (lib/api-football/cache.ts)\<close>

record 'a CacheEntry =
  data :: 'a
  expiresAt :: int

type_synonym 'a cache = "string \<rightharpoonup> 'a CacheEntry"

text \<open>The endpoint table, in milliseconds, and the global default.\<close>

definition ENDPOINT_TTL_CONFIG :: "string \<rightharpoonup> int" where
  "ENDPOINT_TTL_CONFIG = map_of
     [(''/fixtures'', 2 * 60 * 1000),
      (''/fixtures/statistics'', 5 * 60 * 1000),
      (''/fixtures/events'', 2 * 60 * 1000),
      (''/fixtures/lineups'', 10 * 60 * 1000),
      (''/injuries'', 60 * 60 * 1000),
      (''/standings'', 30 * 60 * 1000),
      (''/fixtures/headtohead'', 24 * 60 * 60 * 1000),
      (''/leagues'', 7 * 24 * 60 * 60 * 1000),
      (''/teams'', 7 * 24 * 60 * 60 * 1000),
      (''/timezone'', 30 * 24 * 60 * 60 * 1000)]"

definition defaultTTL :: int where
  "defaultTTL = 60 * 60 * 1000"

text \<open>
  Request parameters are an association list from a parameter name to the text the
  template \<open>`${params[key]}`\<close> renders for its value. \<open>generateKey\<close> sorts the names and
  joins \<open>name=value\<close> with \<open>&\<close>.
\<close>

type_synonym params = "(string \<times> string) list"

fun join :: "string \<Rightarrow> string list \<Rightarrow> string" where
  "join sep [] = []"
| "join sep [x] = x"
| "join sep (x # y # ys) = x @ sep @ join sep (y # ys)"

definition generateKey :: "string \<Rightarrow> params \<Rightarrow> string" where
  "generateKey endpoint ps =
     endpoint @ ''?'' @ join ''&'' (map (\<lambda>(k, v). k @ ''='' @ v) (sort_key fst ps))"

definition cache_get :: "'a cache \<Rightarrow> string \<Rightarrow> params \<Rightarrow> int \<Rightarrow> 'a option \<times> 'a cache" where
  "cache_get c endpoint ps now =
     (let key = generateKey endpoint ps in
      case c key of
        None \<Rightarrow> (None, c)
      | Some entry \<Rightarrow>
          if now > expiresAt entry then (None, c(key := None))
          else (Some (data entry), c))"

text \<open>
  \<open>ttl || ENDPOINT_TTL_CONFIG[endpoint] || this.defaultTTL\<close>: a number is falsy when it
  is absent or zero.
\<close>

definition truthyNum :: "int option \<Rightarrow> bool" where
  "truthyNum x = (case x of None \<Rightarrow> False | Some n \<Rightarrow> n \<noteq> 0)"

definition effectiveTTL :: "int option \<Rightarrow> string \<Rightarrow> int" where
  "effectiveTTL ttl endpoint =
     (if truthyNum ttl then the ttl
      else if truthyNum (ENDPOINT_TTL_CONFIG endpoint) then the (ENDPOINT_TTL_CONFIG endpoint)
      else defaultTTL)"

definition cache_set :: "'a cache \<Rightarrow> string \<Rightarrow> params \<Rightarrow> 'a \<Rightarrow> int option \<Rightarrow> int \<Rightarrow> 'a cache" where
  "cache_set c endpoint ps d ttl now =
     c(generateKey endpoint ps \<mapsto> \<lparr>data = d, expiresAt = now + effectiveTTL ttl endpoint\<rparr>)"

definition cache_cleanup :: "'a cache \<Rightarrow> int \<Rightarrow> 'a cache" where
  "cache_cleanup c now =
     (\<lambda>key. case c key of
        None \<Rightarrow> None
      | Some entry \<Rightarrow> if now > expiresAt entry then None else Some entry)"

section \<open>Request throttle (lib/orchestrator/generator.ts, class RequestThrottle)\<close>

record RequestThrottle =
  lastRequestTime :: int
  minDelayMs :: int

text \<open>\<open>Math.ceil(60000 / requestsPerMinute)\<close>.\<close>

definition newRequestThrottle :: "int \<Rightarrow> RequestThrottle" where
  "newRequestThrottle requestsPerMinute =
     \<lparr>lastRequestTime = 0, minDelayMs = \<lceil>60000 / real_of_int requestsPerMinute\<rceil>\<rparr>"

text \<open>
  The rate the generator's constructor passes: \<open>Number.parseInt\<close> of the environment
  variable (absent when it is not a number), replaced by 8 unless finite and positive.
\<close>

definition configuredRate :: "int option \<Rightarrow> int" where
  "configuredRate rpm = (case rpm of Some n \<Rightarrow> if n > 0 then n else 8 | None \<Rightarrow> 8)"

text \<open>
  One call of \<open>throttle()\<close> reads the clock on entry (\<open>now\<close>), sleeps for
  \<open>delayNeeded\<close> when the last acquisition is too recent, and on resumption stores a
  second clock reading as the new \<open>lastRequestTime\<close>. The two halves are separate
  functions because other callers may run while this one sleeps.
\<close>

definition delayNeeded :: "RequestThrottle \<Rightarrow> int \<Rightarrow> int" where
  "delayNeeded th now =
     (let timeSinceLastRequest = now - lastRequestTime th in
      if timeSinceLastRequest < minDelayMs th then minDelayMs th - timeSinceLastRequest else 0)"

definition acquired :: "RequestThrottle \<Rightarrow> int \<Rightarrow> RequestThrottle" where
  "acquired th fin = th\<lparr>lastRequestTime := fin\<rparr>"

text \<open>
  A schedule of throttle calls is a list of events in the order the runtime executes
  them: \<open>Enter c now\<close> is caller \<open>c\<close> running lines 34 to 39 with clock reading \<open>now\<close>;
  \<open>Finish c fin\<close> is caller \<open>c\<close> running line 42 with clock reading \<open>fin\<close>. A caller
  that needs no delay does not suspend, so its \<open>Finish\<close> is the next event; a caller
  that sleeps may be overtaken by others before its timer fires.
  \<open>runThrottle\<close> executes a schedule and returns the acquisition times in order, or
  \<open>None\<close> when the schedule is impossible: a caller finishes without having entered, a
  caller that does not sleep is interrupted, or a timer fires before its delay has passed.
\<close>

datatype event = Enter nat int | Finish nat int

fun runThrottle :: "RequestThrottle \<Rightarrow> (nat \<rightharpoonup> int) \<Rightarrow> event list \<Rightarrow> int list option" where
  "runThrottle th pending [] = Some []"
| "runThrottle th pending (Enter c now # es) =
     (if delayNeeded th now = 0 \<and> (case es of Finish c' fin # es' \<Rightarrow> c' \<noteq> c | _ \<Rightarrow> True)
      then None
      else runThrottle th (pending(c \<mapsto> now + delayNeeded th now)) es)"
| "runThrottle th pending (Finish c fin # es) =
     (case pending c of
        None \<Rightarrow> None
      | Some wake \<Rightarrow>
          if fin < wake then None
          else map_option ((#) fin) (runThrottle (acquired th fin) (pending(c := None)) es))"

text \<open>
  Sequential use, as \<open>collectData\<close> does it (each call awaited before the next is
  made): call \<open>k\<close> enters at \<open>fst\<close> and finishes at \<open>snd\<close> of the \<open>k\<close>-th pair.
\<close>

fun sequentialCalls :: "(int \<times> int) list \<Rightarrow> event list" where
  "sequentialCalls [] = []"
| "sequentialCalls ((now, fin) # cs) = Enter 0 now # Finish 0 fin # sequentialCalls cs"

text \<open>Each call starts no earlier than the previous acquisition.\<close>

fun inOrder :: "int \<Rightarrow> (int \<times> int) list \<Rightarrow> bool" where
  "inOrder t [] = True"
| "inOrder t ((now, fin) # cs) = (t \<le> now \<and> inOrder fin cs)"

text \<open>Consecutive elements differ by at least \<open>d\<close>.\<close>

fun spaced :: "int \<Rightarrow> int list \<Rightarrow> bool" where
  "spaced d [] = True"
| "spaced d [t] = True"
| "spaced d (t # u # ts) = (d \<le> u - t \<and> spaced d (u # ts))"


section \<open>External data client (lib/api-football/client.ts)\<close>

text \<open>Rendering of integers in template strings.\<close>

fun showNat :: "nat \<Rightarrow> string" where
  "showNat n = (if n < 10 then [''0123456789'' ! n]
                else showNat (n div 10) @ [''0123456789'' ! (n mod 10)])"

declare showNat.simps [simp del]






text \<open>
  The body of a response: \<open>errors\<close> lists the keys of \<open>data.errors\<close> with their
  values (empty for \<open>[]\<close> and \<open>{}\<close>), \<open>response\<close> is the payload.
\<close>

record 'a ApiBody =
  errors :: "(string \<times> string) list"
  response :: 'a

text \<open>
  What \<open>fetch\<close> resolves to: the status line, the three headers the client reads (absent
  when \<open>headers.get\<close> returns \<open>null\<close>) and the outcome of \<open>response.json()\<close>, which
  rejects (\<open>Inl\<close>, with the text of the error) or yields the body.
\<close>

record 'a HttpResponse =
  rs_status :: int
  rs_statusText :: string
  rs_remaining :: "string option"
  rs_limit :: "string option"
  rs_retryAfter :: "string option"
  rs_json :: "string + 'a ApiBody"

datatype 'a fetchOutcome = Rejects string | Resolves "'a HttpResponse"

text \<open>
  The surroundings of one call of \<open>request\<close>: what the fetch of each attempt does and
  what the clock shows when the cache is read and written during that attempt.
\<close>

record 'a clientEnv =
  fetch :: "nat \<Rightarrow> 'a fetchOutcome"
  lookupTime :: "nat \<Rightarrow> int"
  storeTime :: "nat \<Rightarrow> int"















section \<open>Report blueprint (lib/report/blueprint.ts)\<close>

record SignalDefinition =
  sig_id :: string
  sig_name :: string
  sig_description :: string
  dataRequirements :: "string list"

record CategoryDefinition =
  cat_id :: string
  cat_name :: string
  cat_description :: string
  cat_emoji :: string
  signals :: "SignalDefinition list"

text \<open>The emoji literals of the source, as their UTF-8 bytes.\<close>

definition soccerBall :: string where
  "soccerBall = [CHR 0xE2, CHR 0x9A, CHR 0xBD]"

definition barChart :: string where
  "barChart = [CHR 0xF0, CHR 0x9F, CHR 0x93, CHR 0x8A]"

definition star :: string where
  "star = [CHR 0xE2, CHR 0xAD, CHR 0x90]"

definition bullseye :: string where
  "bullseye = [CHR 0xF0, CHR 0x9F, CHR 0x8E, CHR 0xAF]"

definition brain :: string where
  "brain = [CHR 0xF0, CHR 0x9F, CHR 0xA7, CHR 0xA0]"

definition REPORT_BLUEPRINT :: "CategoryDefinition list" where
  "REPORT_BLUEPRINT =
    [\<lparr>cat_id = ''game_context'', cat_name = ''Game Context'',
      cat_description = ''Essential match information and context'', cat_emoji = soccerBall,
      signals =
       [\<lparr>sig_id = ''home_vs_away'', sig_name = ''Home vs Away Analysis'',
         sig_description = ''Team names, venue advantage, and basic matchup info'',
         dataRequirements = [''fixture'']\<rparr>,
        \<lparr>sig_id = ''competition_round_schedule'', sig_name = ''Competition Context'',
         sig_description = ''League, round, season context, and schedule positioning'',
         dataRequirements = [''fixture'', ''standings'']\<rparr>,
        \<lparr>sig_id = ''kickoff_weather_pitch'', sig_name = ''Match Conditions'',
         sig_description = ''Kickoff time, weather conditions, pitch status'',
         dataRequirements = [''fixture'']\<rparr>]\<rparr>,
     \<lparr>cat_id = ''team_context'', cat_name = ''Team Context'',
      cat_description = ''Recent form and tactical trends'', cat_emoji = barChart,
      signals =
       [\<lparr>sig_id = ''recent_form_results'', sig_name = ''Recent Form & Results'',
         sig_description = ''Last 5-10 matches for each team, win/loss patterns'',
         dataRequirements = [''standings'', ''h2h'']\<rparr>,
        \<lparr>sig_id = ''tactical_shape_trends'', sig_name = ''Tactical Shape & Trends'',
         sig_description = ''Formation preferences, style of play, tactical evolution'',
         dataRequirements = [''lineups'', ''statistics'']\<rparr>]\<rparr>,
     \<lparr>cat_id = ''key_players'', cat_name = ''Key Players'',
      cat_description = ''Critical players and lineup information'', cat_emoji = star,
      signals =
       [\<lparr>sig_id = ''key_players_lineup'', sig_name = ''Key Players & Expected Lineup'',
         sig_description = ''Star players, probable starting XI, tactical roles'',
         dataRequirements = [''lineups'', ''statistics'']\<rparr>,
        \<lparr>sig_id = ''injury_report'', sig_name = ''Injuries & Suspensions'',
         sig_description = ''Unavailable players, impact on team strength'',
         dataRequirements = [''injuries'']\<rparr>]\<rparr>,
     \<lparr>cat_id = ''tactical_battle'', cat_name = ''Tactical Battle'',
      cat_description = ''Strategic matchups and managerial approach'', cat_emoji = bullseye,
      signals =
       [\<lparr>sig_id = ''managerial_approach'', sig_name = ''Managerial Approach'',
         sig_description = ''Coach philosophy, recent tactical decisions'',
         dataRequirements = [''lineups'', ''statistics'']\<rparr>,
        \<lparr>sig_id = ''matchup_analysis'', sig_name = ''Key Matchups'',
         sig_description = ''Position-by-position battles, tactical weaknesses to exploit'',
         dataRequirements = [''lineups'', ''statistics'']\<rparr>]\<rparr>,
     \<lparr>cat_id = ''psych_context'', cat_name = ''Psychological Context'',
      cat_description = ''Mental factors and historical context'', cat_emoji = brain,
      signals =
       [\<lparr>sig_id = ''motivation_factors'', sig_name = ''Motivation & Stakes'',
         sig_description = ''What each team is playing for, psychological drivers'',
         dataRequirements = [''fixture'', ''standings'']\<rparr>,
        \<lparr>sig_id = ''h2h_history_psychology'', sig_name = ''Head-to-Head Psychology'',
         sig_description = ''Recent H2H results, psychological edge, historical trends'',
         dataRequirements = [''h2h'']\<rparr>]\<rparr>]"

text \<open>\<open>getAllSignals\<close>: every signal paired with the id of its category, in blueprint order.\<close>

definition allSignals :: "CategoryDefinition list \<Rightarrow> (string \<times> SignalDefinition) list" where
  "allSignals blueprint =
     concat (map (\<lambda>category. map (\<lambda>signal. (cat_id category, signal)) (signals category)) blueprint)"

definition getAllSignals :: "(string \<times> SignalDefinition) list" where
  "getAllSignals = allSignals REPORT_BLUEPRINT"

text \<open>The composite key \<open>`${categoryId}.${signal.id}`\<close> of a task.\<close>

definition taskKey :: "string \<times> SignalDefinition \<Rightarrow> string" where
  "taskKey t = fst t @ ''.'' @ sig_id (snd t)"

section \<open>Progress tracker (lib/orchestrator/progress-tracker.ts)\<close>

datatype ProgressStage = data_collection | signal_generation | category_merge | final_synthesis

record Details =
  d_current :: nat
  d_total :: nat
  d_categoryId :: string
  d_signalId :: "string option"

record ProgressUpdate =
  stage :: ProgressStage
  progress :: int
  message :: string
  currentTask :: "string option"
  details :: "Details option"

record ProgressTracker =
  totalSignals :: nat
  totalCategories :: nat
  completedSignals :: nat
  completedCategories :: nat

definition newProgressTracker :: "nat \<Rightarrow> nat \<Rightarrow> ProgressTracker" where
  "newProgressTracker nSignals nCategories =
     \<lparr>totalSignals = nSignals, totalCategories = nCategories,
      completedSignals = 0, completedCategories = 0\<rparr>"

text \<open>
  \<open>20 + Math.floor((completedSignals / totalSignals) * 50)\<close> and
  \<open>70 + Math.floor((completedCategories / totalCategories) * 20)\<close>, in exact arithmetic.
  The totals are 11 and 5 in every run; for these the double-precision products lie
  within \<open>1e-14\<close> of the exact ones and have the same floor.
\<close>

definition signalProgress :: "ProgressTracker \<Rightarrow> int" where
  "signalProgress t = 20 + \<lfloor>(real (completedSignals t) / real (totalSignals t)) * 50\<rfloor>"

definition categoryProgress :: "ProgressTracker \<Rightarrow> int" where
  "categoryProgress t = 70 + \<lfloor>(real (completedCategories t) / real (totalCategories t)) * 20\<rfloor>"

definition getCurrentProgress :: "ProgressTracker \<Rightarrow> int" where
  "getCurrentProgress t =
     (if completedSignals t < totalSignals t then signalProgress t
      else if completedCategories t < totalCategories t then categoryProgress t
      else 90)"

section \<open>Completion chains (lib/llm/chains, lib/llm/model-factory.ts)\<close>

record SignalChainInput =
  in_homeTeam :: string
  in_awayTeam :: string
  in_league :: string
  in_date :: string
  in_signalName :: string
  in_signalDescription :: string
  in_collectedData :: string

text \<open>
  What the signal chain yields when it does not throw: each property may be missing
  (\<open>confidence\<close> is \<open>None\<close> whenever \<open>typeof result.confidence\<close> is not \<open>number\<close>).
\<close>

record RawSignal =
  raw_insights :: "string list option"
  raw_narrative :: "string option"
  raw_emoji :: "string option"
  raw_confidence :: "real option"

record SignalReportOutput =
  out_insights :: "string list option"
  out_narrative :: string
  out_emoji :: string
  out_confidence :: real

record CategoryChainInput =
  ci_homeTeam :: string
  ci_awayTeam :: string
  ci_categoryName :: string
  ci_categoryEmoji :: string
  ci_signalReports :: string

record CategoryReportOutput =
  co_title :: string
  co_sections :: "ReportSection list"
  co_talkingPoints :: "string list"

record FinalChainInput =
  fi_homeTeam :: string
  fi_awayTeam :: string
  fi_league :: string
  fi_date :: string
  fi_categoryReports :: string

record FinalReportOutput =
  fo_title :: string
  fo_subtitle :: string
  fo_sections :: "ReportSection list"
  fo_quickTalkingPoints :: "string list"

text \<open>
  The completion service and the text formatters around it. A chain's \<open>invoke\<close> throws
  (\<open>Inl\<close>, with the text \<open>`${error}`\<close> renders) or returns; the signal chain may return
  \<open>null\<close> (\<open>Inr None\<close>). The formatters are pure functions of their arguments over the
  opaque payloads; they throw (\<open>Inl\<close>) on a payload of an unexpected shape.
\<close>

record Completion =
  OPENAI_API_KEY :: "string option"
  signalChain :: "SignalChainInput \<Rightarrow> string + RawSignal option"
  categoryChain :: "CategoryChainInput \<Rightarrow> string + CategoryReportOutput"
  finalChain :: "FinalChainInput \<Rightarrow> string + FinalReportOutput"
  formatCollectedDataForSignal :: "CollectedData \<Rightarrow> string list \<Rightarrow> string + string"
  formatPartialReportsForCategory :: "PartialReport list \<Rightarrow> string + string"
  formatCategoryReportsForFinal :: "(string \<rightharpoonup> CategoryReport) \<Rightarrow> string + string"
  formatFinalReportAsMarkdown :: "FinalReportOutput \<Rightarrow> string + string"
  toLocaleDateString :: "string \<Rightarrow> string"

text \<open>\<open>getChatModel\<close> throws when the key is unset or empty; every chain is built by it.\<close>

definition getChatModel :: "Completion \<Rightarrow> string + unit" where
  "getChatModel llm =
     (if \<not> truthyStr (OPENAI_API_KEY llm)
      then Inl ''OPENAI_API_KEY environment variable is not set''
      else Inr ())"

definition createSignalChain :: "Completion \<Rightarrow> string + unit" where
  "createSignalChain llm = getChatModel llm"

definition createCategoryChain :: "Completion \<Rightarrow> string + unit" where
  "createCategoryChain llm = getChatModel llm"

definition createFinalChain :: "Completion \<Rightarrow> string + unit" where
  "createFinalChain llm = getChatModel llm"

definition fallbackSignal :: "SignalChainInput \<Rightarrow> SignalReportOutput" where
  "fallbackSignal input =
     \<lparr>out_insights = Some [''Unable to analyze '' @ in_signalName input
                             @ '' - data temporarily unavailable''],
      out_narrative = ''Analysis for '' @ in_signalName input
        @ '' could not be completed at this time due to processing limitations.'',
      out_emoji = soccerBall,
      out_confidence = 0.3\<rparr>"

text \<open>
  \<open>analyzeSignal\<close>. The chain is created before the \<open>try\<close> block, so an error of
  \<open>getChatModel\<close> leaves the function; everything after is caught.
\<close>

definition analyzeSignal :: "Completion \<Rightarrow> SignalChainInput \<Rightarrow> string + SignalReportOutput" where
  "analyzeSignal llm input =
     (case createSignalChain llm of
        Inl e \<Rightarrow> Inl e
      | Inr chain \<Rightarrow>
         (case signalChain llm input of
            Inl e \<Rightarrow> Inr (fallbackSignal input)
          | Inr None \<Rightarrow> Inr (fallbackSignal input)
          | Inr (Some result) \<Rightarrow>
              if \<not> truthyStr (raw_narrative result) \<or> \<not> truthyStr (raw_emoji result)
                 \<or> raw_confidence result = None
              then Inr \<lparr>out_insights = Some (case raw_insights result of Some xs \<Rightarrow> xs | None \<Rightarrow> []),
                        out_narrative = (if truthyStr (raw_narrative result) then the (raw_narrative result)
                                         else ''No narrative available - data analysis in progress.''),
                        out_emoji = (if truthyStr (raw_emoji result) then the (raw_emoji result)
                                     else soccerBall),
                        out_confidence = (case raw_confidence result of Some x \<Rightarrow> x | None \<Rightarrow> 0.5)\<rparr>
              else Inr \<lparr>out_insights = raw_insights result,
                        out_narrative = the (raw_narrative result),
                        out_emoji = the (raw_emoji result),
                        out_confidence = the (raw_confidence result)\<rparr>))"

definition mergeCategory :: "Completion \<Rightarrow> CategoryChainInput \<Rightarrow> string + CategoryReportOutput" where
  "mergeCategory llm input =
     (case createCategoryChain llm of
        Inl e \<Rightarrow> Inl e
      | Inr chain \<Rightarrow>
         (case categoryChain llm input of
            Inl e \<Rightarrow> Inl (''Failed to merge category '' @ [CHR 0x22] @ ci_categoryName input
                            @ [CHR 0x22] @ '': '' @ e)
          | Inr result \<Rightarrow> Inr result))"

definition synthesizeFinalReport :: "Completion \<Rightarrow> FinalChainInput \<Rightarrow> string + FinalReportOutput" where
  "synthesizeFinalReport llm input =
     (case createFinalChain llm of
        Inl e \<Rightarrow> Inl e
      | Inr chain \<Rightarrow>
         (case finalChain llm input of
            Inl e \<Rightarrow> Inl (''Failed to synthesize final report: '' @ e)
          | Inr result \<Rightarrow> Inr result))"

section \<open>Pipeline orchestrator (lib/orchestrator/generator.ts)\<close>

text \<open>
  What \<open>APIFootballProxy\<close> returns: \<open>{success, data?, error?}\<close>. The proxy catches every
  error of the client, so a fetch never throws into the orchestrator.
\<close>

record 'a ProxyResult =
  success :: bool
  p_data :: "'a option"
  p_error :: "string option"

record DataApi =
  getFixtures :: "int \<Rightarrow> FixtureData list ProxyResult"
  getStatistics :: "int \<Rightarrow> payload ProxyResult"
  getInjuries :: "int \<Rightarrow> payload ProxyResult"
  getLineups :: "int \<Rightarrow> payload ProxyResult"
  getH2H :: "int \<Rightarrow> int \<Rightarrow> payload ProxyResult"
  getStandings :: "int \<Rightarrow> int \<Rightarrow> payload ProxyResult"
  getStandingsFallback :: "int \<Rightarrow> int \<Rightarrow> payload ProxyResult"

text \<open>
  The surroundings of one run: the clock (\<open>clock n\<close> is what \<open>Date.now()\<close> returns
  after \<open>n\<close> suspensions of the run), the football API behind its proxy and the
  completion service. \<open>getStandingsFallback\<close> answers the second standings query.
\<close>

record env =
  clock :: "nat \<Rightarrow> int"
  api :: DataApi
  llm :: Completion

text \<open>
  The state a run works on: the session store, the tracker the run creates, the
  updates delivered to the progress callback so far, the number of suspensions so far,
  and the updates handed to \<open>updateSession\<close> so far, in order.
\<close>

record world =
  manager :: SessionManager
  tracker :: ProgressTracker
  emitted :: "ProgressUpdate list"
  tick :: nat
  writes :: "UpdateSessionParams list"

definition now :: "env \<Rightarrow> world \<Rightarrow> int" where
  "now e w = clock e (tick w)"

text \<open>Resumption after an \<open>await\<close> on the network or the completion service.\<close>

definition resume :: "world \<Rightarrow> world" where
  "resume w = w\<lparr>tick := Suc (tick w)\<rparr>"

definition callback :: "ProgressUpdate \<Rightarrow> world \<Rightarrow> world" where
  "callback u w = w\<lparr>emitted := emitted w @ [u]\<rparr>"

definition storeGet :: "env \<Rightarrow> string \<Rightarrow> world \<Rightarrow> Session option \<times> world" where
  "storeGet e sid w =
     (case getSession (manager w) sid (now e w) of (r, m) \<Rightarrow> (r, w\<lparr>manager := m\<rparr>))"

definition storeUpdate :: "env \<Rightarrow> string \<Rightarrow> UpdateSessionParams \<Rightarrow> world \<Rightarrow> world" where
  "storeUpdate e sid u w =
     w\<lparr>manager := snd (updateSession (manager w) sid u (now e w)), writes := writes w @ [u]\<rparr>"

subsection \<open>Tracker emissions\<close>

definition emitDataCollection :: "string \<Rightarrow> world \<Rightarrow> world" where
  "emitDataCollection msg w =
     callback \<lparr>stage = data_collection, progress = 10, message = msg,
               currentTask = Some msg, details = None\<rparr> w"

definition emitSignalStart :: "string \<Rightarrow> string \<Rightarrow> string \<Rightarrow> world \<Rightarrow> world" where
  "emitSignalStart categoryId signalId signalName w =
     callback \<lparr>stage = signal_generation, progress = signalProgress (tracker w),
               message = ''Analyzing: '' @ signalName, currentTask = Some signalName,
               details = Some \<lparr>d_current = completedSignals (tracker w) + 1,
                                d_total = totalSignals (tracker w),
                                d_categoryId = categoryId, d_signalId = Some signalId\<rparr>\<rparr> w"

definition emitSignalComplete :: "string \<Rightarrow> string \<Rightarrow> world \<Rightarrow> world" where
  "emitSignalComplete categoryId signalId w =
     (let w1 = w\<lparr>tracker := (tracker w)\<lparr>completedSignals := completedSignals (tracker w) + 1\<rparr>\<rparr>
      in callback \<lparr>stage = signal_generation, progress = signalProgress (tracker w1),
                   message = ''Completed '' @ showNat (completedSignals (tracker w1)) @ ''/''
                     @ showNat (totalSignals (tracker w1)) @ '' signals'',
                   currentTask = None,
                   details = Some \<lparr>d_current = completedSignals (tracker w1),
                                    d_total = totalSignals (tracker w1),
                                    d_categoryId = categoryId, d_signalId = Some signalId\<rparr>\<rparr> w1)"

definition emitCategoryStart :: "string \<Rightarrow> string \<Rightarrow> world \<Rightarrow> world" where
  "emitCategoryStart categoryId categoryName w =
     callback \<lparr>stage = category_merge, progress = categoryProgress (tracker w),
               message = ''Merging category: '' @ categoryName, currentTask = Some categoryName,
               details = Some \<lparr>d_current = completedCategories (tracker w) + 1,
                                d_total = totalCategories (tracker w),
                                d_categoryId = categoryId, d_signalId = None\<rparr>\<rparr> w"

definition emitCategoryComplete :: "string \<Rightarrow> world \<Rightarrow> world" where
  "emitCategoryComplete categoryId w =
     (let w1 = w\<lparr>tracker := (tracker w)\<lparr>completedCategories := completedCategories (tracker w) + 1\<rparr>\<rparr>
      in callback \<lparr>stage = category_merge, progress = categoryProgress (tracker w1),
                   message = ''Completed '' @ showNat (completedCategories (tracker w1)) @ ''/''
                     @ showNat (totalCategories (tracker w1)) @ '' categories'',
                   currentTask = None,
                   details = Some \<lparr>d_current = completedCategories (tracker w1),
                                    d_total = totalCategories (tracker w1),
                                    d_categoryId = categoryId, d_signalId = None\<rparr>\<rparr> w1)"

definition emitFinalSynthesis :: "string \<Rightarrow> int \<Rightarrow> world \<Rightarrow> world" where
  "emitFinalSynthesis msg p w =
     callback \<lparr>stage = final_synthesis, progress = 90 + p, message = msg,
               currentTask = Some msg, details = None\<rparr> w"

subsection \<open>Stage 1: data collection\<close>

text \<open>\<open>String.prototype.includes\<close>, named \<open>includesStr\<close> here.\<close>

fun startsWith :: "string \<Rightarrow> string \<Rightarrow> bool" where
  "startsWith s [] = True"
| "startsWith [] (p # ps) = False"
| "startsWith (ch # cs) (p # ps) = (ch = p \<and> startsWith cs ps)"

fun includesStr :: "string \<Rightarrow> string \<Rightarrow> bool" where
  "includesStr [] p = (p = [])"
| "includesStr (ch # cs) p = (startsWith (ch # cs) p \<or> includesStr cs p)"

text \<open>
  The pattern the five best-effort fetches share:
  \<open>if (result.success && result.data) updateSession(id, {collectedData: {name: result.data}})\<close>.
\<close>

definition storeFragment ::
    "env \<Rightarrow> string \<Rightarrow> payload ProxyResult \<Rightarrow> (payload \<Rightarrow> CollectedData) \<Rightarrow> world \<Rightarrow> world" where
  "storeFragment e sid result fragment w =
     (if success result
      then (case p_data result of
              Some d \<Rightarrow> storeUpdate e sid (noUpdate\<lparr>u_collectedData := Some (fragment d)\<rparr>) w
            | None \<Rightarrow> w)
      else w)"

text \<open>
  Each fetch is preceded by \<open>await this.throttle.throttle()\<close> and is itself awaited:
  the run is suspended between the emission and the use of the result.
\<close>

definition collectData :: "env \<Rightarrow> string \<Rightarrow> Session \<Rightarrow> world \<Rightarrow> (string + unit) \<times> world" where
  "collectData e sid session w =
     (let w1 = resume (emitDataCollection ''Fetching fixture details...'' w);
          fixtureResult = getFixtures (api e) (fixtureId session)
      in case (if success fixtureResult then p_data fixtureResult else None) of
           Some (fx # others) \<Rightarrow>
             (let w2 = storeUpdate e sid
                         (noUpdate\<lparr>u_collectedData := Some (emptyData\<lparr>fixture := Some fx\<rparr>)\<rparr>) w1;
                  w3 = resume (emitDataCollection ''Fetching match statistics...'' w2);
                  w4 = storeFragment e sid (getStatistics (api e) (fixtureId session))
                         (\<lambda>d. emptyData\<lparr>statistics := Some d\<rparr>) w3;
                  w5 = resume (emitDataCollection ''Fetching injury reports...'' w4);
                  w6 = storeFragment e sid (getInjuries (api e) (fixtureId session))
                         (\<lambda>d. emptyData\<lparr>injuries := Some d\<rparr>) w5;
                  w7 = resume (emitDataCollection ''Fetching team lineups...'' w6);
                  w8 = storeFragment e sid (getLineups (api e) (fixtureId session))
                         (\<lambda>d. emptyData\<lparr>lineups := Some d\<rparr>) w7;
                  w9 = resume (emitDataCollection ''Fetching head-to-head history...'' w8);
                  w10 = storeFragment e sid (getH2H (api e) (homeTeamId fx) (awayTeamId fx))
                         (\<lambda>d. emptyData\<lparr>h2h := Some d\<rparr>) w9;
                  w11 = resume (emitDataCollection ''Fetching league standings...'' w10);
                  standingsResult = getStandings (api e) (leagueId fx) (leagueSeason fx);
                  w12 = (if success standingsResult \<and> p_data standingsResult \<noteq> None
                         then storeFragment e sid standingsResult
                                (\<lambda>d. emptyData\<lparr>standings := Some d\<rparr>) w11
                         else if \<not> success standingsResult
                                 \<and> (case p_error standingsResult of
                                       Some msg \<Rightarrow> includesStr msg ''Free plans''
                                     | None \<Rightarrow> False)
                         then storeFragment e sid (getStandingsFallback (api e) (leagueId fx) 2023)
                                (\<lambda>d. emptyData\<lparr>standings := Some d\<rparr>) (resume w11)
                         else w11)
              in (Inr (), emitDataCollection ''Data collection completed'' w12))
         | _ \<Rightarrow> (Inl ''Failed to fetch fixture details'', w1))"

subsection \<open>Stage 2: signal generation through the worker pool\<close>

type_synonym task = "string \<times> SignalDefinition"

text \<open>
  A worker is about to test its loop condition (\<open>WReady\<close>), is suspended in
  \<open>await analyzeSignal(input)\<close> of the task it claimed (\<open>WAwait\<close>), or has left its
  loop (\<open>WDone\<close>).
\<close>

datatype wstate = WReady | WAwait nat SignalChainInput | WDone

record pool =
  nextIndex :: nat
  workers :: "wstate list"
  pworld :: world

definition signalConcurrency :: nat where
  "signalConcurrency = 2"

text \<open>
  A task from its start to its first suspension: the emission, the fresh read of the
  session, the extraction of the data the signal requires, and the call of
  \<open>analyzeSignal\<close>. An error before the call is caught by the task's \<open>catch\<close> and the
  task is over.
\<close>

text \<open>
  The argument of \<open>analyzeSignal\<close> for a task, from the session the task has just read;
  \<open>Inl\<close> when an error is thrown before the call.
\<close>

definition signalInput :: "Completion \<Rightarrow> Session \<Rightarrow> task \<Rightarrow> string + SignalChainInput" where
  "signalInput service latestSession t =
     (case fixture (collectedData latestSession) of
        None \<Rightarrow> Inl ''Fixture data not available''
      | Some latestFixture \<Rightarrow>
         (case formatCollectedDataForSignal service (collectedData latestSession)
                 (dataRequirements (snd t)) of
            Inl err \<Rightarrow> Inl err
          | Inr collectedDataStr \<Rightarrow>
              Inr \<lparr>in_homeTeam = homeTeamName latestFixture,
                   in_awayTeam = awayTeamName latestFixture,
                   in_league = leagueName latestFixture,
                   in_date = toLocaleDateString service (fixtureDate latestFixture),
                   in_signalName = sig_name (snd t),
                   in_signalDescription = sig_description (snd t),
                   in_collectedData = collectedDataStr\<rparr>))"

definition startTask :: "env \<Rightarrow> string \<Rightarrow> task \<Rightarrow> nat \<Rightarrow> world \<Rightarrow> wstate \<times> world" where
  "startTask e sid t current w =
     (let w1 = emitSignalStart (fst t) (sig_id (snd t)) (sig_name (snd t)) w
      in case storeGet e sid w1 of
           (None, w2) \<Rightarrow> (WReady, w2)
         | (Some latestSession, w2) \<Rightarrow>
            (case signalInput (llm e) latestSession t of
               Inl err \<Rightarrow> (WReady, w2)
             | Inr input \<Rightarrow> (WAwait current input, w2)))"

text \<open>
  The rest of the task, once \<open>analyzeSignal\<close> has settled: an error is caught; a result
  is written under the composite key and the completion is emitted.
\<close>

definition partialReportOf :: "task \<Rightarrow> SignalReportOutput \<Rightarrow> PartialReport" where
  "partialReportOf t result =
     \<lparr>pr_categoryId = fst t, pr_signalId = sig_id (snd t), pr_title = sig_name (snd t),
      pr_insights = out_insights result, pr_narrative = out_narrative result,
      pr_emoji = out_emoji result, pr_confidence = out_confidence result\<rparr>"

definition finishTask :: "env \<Rightarrow> string \<Rightarrow> task \<Rightarrow> SignalChainInput \<Rightarrow> world \<Rightarrow> world" where
  "finishTask e sid t input w =
     (case analyzeSignal (llm e) input of
        Inl err \<Rightarrow> w
      | Inr result \<Rightarrow>
          emitSignalComplete (fst t) (sig_id (snd t))
            (storeUpdate e sid
               (noUpdate\<lparr>u_partialReport := Some (taskKey t, partialReportOf t result)\<rparr>) w))"

text \<open>
  One uninterrupted stretch of worker \<open>k\<close>: from \<open>WReady\<close> it claims the next index and
  starts that task, or leaves the loop when no index is left; from \<open>WAwait\<close> it finishes
  its task and returns to the loop condition.
\<close>

definition stepBody :: "env \<Rightarrow> string \<Rightarrow> task list \<Rightarrow> nat \<Rightarrow> pool \<Rightarrow> pool" where
  "stepBody e sid tasks k p =
     (case workers p ! k of
        WDone \<Rightarrow> p
      | WReady \<Rightarrow>
          if nextIndex p < length tasks
          then (let current = nextIndex p;
                    (ws, w) = startTask e sid (tasks ! current) current (pworld p)
                in p\<lparr>nextIndex := current + 1, workers := (workers p)[k := ws], pworld := w\<rparr>)
          else p\<lparr>workers := (workers p)[k := WDone]\<rparr>
      | WAwait current input \<Rightarrow>
          p\<lparr>workers := (workers p)[k := WReady],
            pworld := finishTask e sid (tasks ! current) input (pworld p)\<rparr>)"

definition active :: "pool \<Rightarrow> nat \<Rightarrow> bool" where
  "active p k = (k < length (workers p) \<and> workers p ! k \<noteq> WDone)"

text \<open>The runtime resumes worker \<open>k\<close>; nothing happens when that worker is not waiting.\<close>

definition stepWorker :: "env \<Rightarrow> string \<Rightarrow> task list \<Rightarrow> nat \<Rightarrow> pool \<Rightarrow> pool" where
  "stepWorker e sid tasks k p =
     (if active p k then stepBody e sid tasks k (p\<lparr>pworld := resume (pworld p)\<rparr>) else p)"

text \<open>
  \<open>Array.from({length: Math.min(signalConcurrency, tasks.length)}, () => runWorker())\<close>:
  the workers are started one after the other, each running to its first suspension.
\<close>

definition startPool :: "env \<Rightarrow> string \<Rightarrow> task list \<Rightarrow> world \<Rightarrow> pool" where
  "startPool e sid tasks w =
     fold (stepBody e sid tasks) [0 ..< min signalConcurrency (length tasks)]
       \<lparr>nextIndex = 0, workers = replicate (min signalConcurrency (length tasks)) WReady,
        pworld = w\<rparr>"

fun firstActive :: "wstate list \<Rightarrow> nat option" where
  "firstActive [] = None"
| "firstActive (ws # rest) =
     (if ws \<noteq> WDone then Some 0 else map_option Suc (firstActive rest))"

definition weight :: "wstate \<Rightarrow> nat" where
  "weight ws = (case ws of WDone \<Rightarrow> 0 | WReady \<Rightarrow> 1 | WAwait i input \<Rightarrow> 2)"

definition remainingWork :: "task list \<Rightarrow> pool \<Rightarrow> nat" where
  "remainingWork tasks p = 3 * (length tasks - nextIndex p) + sum_list (map weight (workers p))"

text \<open>
  Every step of a waiting worker uses up some of the remaining work: three units for each
  unclaimed task, two for a task in flight, one for a worker that has yet to leave its loop.
\<close>

lemma firstActive_Some:
  "firstActive ws = Some k \<Longrightarrow> k < length ws \<and> ws ! k \<noteq> WDone"
  by (induction ws arbitrary: k) (auto split: if_splits)

lemma firstActive_None:
  "firstActive ws = None \<Longrightarrow> \<forall>x \<in> set ws. x = WDone"
  by (induction ws) (auto split: if_splits)

lemma weight_update:
  "k < length ws \<Longrightarrow>
     sum_list (map weight (ws[k := x])) + weight (ws ! k) = sum_list (map weight ws) + weight x"
  by (induction ws arbitrary: k) (auto split: nat.splits)

lemma stepBody_decreases:
  assumes "k < length (workers p)" and "workers p ! k \<noteq> WDone"
  shows "remainingWork tasks (stepBody e sid tasks k p) < remainingWork tasks p"
proof (cases "workers p ! k")
  case WReady
  show ?thesis
  proof (cases "nextIndex p < length tasks")
    case True
    obtain ws w where st: "startTask e sid (tasks ! nextIndex p) (nextIndex p) (pworld p) = (ws, w)"
      by (cases "startTask e sid (tasks ! nextIndex p) (nextIndex p) (pworld p)")
    have "weight ws \<le> 2" by (simp add: weight_def split: wstate.splits)
    with weight_update[OF assms(1), of ws] WReady True st show ?thesis
      by (simp add: stepBody_def remainingWork_def weight_def Let_def)
  next
    case False
    with weight_update[OF assms(1), of WDone] WReady show ?thesis
      by (simp add: stepBody_def remainingWork_def weight_def)
  qed
next
  case (WAwait i input)
  with weight_update[OF assms(1), of WReady] show ?thesis
    by (simp add: stepBody_def remainingWork_def weight_def)
next
  case WDone
  with assms show ?thesis by simp
qed

lemma stepWorker_decreases:
  "active p k \<Longrightarrow> remainingWork tasks (stepWorker e sid tasks k p) < remainingWork tasks p"
  using stepBody_decreases[of k "p\<lparr>pworld := resume (pworld p)\<rparr>" tasks e sid]
  by (simp add: stepWorker_def active_def remainingWork_def)


text \<open>
  The order in which suspended workers are resumed is decided by the runtime (it is the
  order in which the completion calls settle). A schedule lists worker numbers in the
  order of resumption; once it is used up the remaining workers are resumed lowest
  number first until all have left their loops, which is when \<open>Promise.all(workers)\<close>
  resolves.
\<close>

function drain :: "env \<Rightarrow> string \<Rightarrow> task list \<Rightarrow> pool \<Rightarrow> pool" where
  "drain e sid tasks p =
     (case firstActive (workers p) of
        None \<Rightarrow> p
      | Some k \<Rightarrow> drain e sid tasks (stepWorker e sid tasks k p))"
  by pat_completeness auto
termination
proof (relation "measure (\<lambda>(e, sid, tasks, p). remainingWork tasks p)")
  show "wf (measure (\<lambda>(e, sid, tasks, p). remainingWork tasks p))" by simp
next
  fix e sid tasks and p :: pool and k
  assume "firstActive (workers p) = Some k"
  then have "active p k" by (simp add: active_def firstActive_Some)
  then show "((e, sid, tasks, stepWorker e sid tasks k p), (e, sid, tasks, p))
      \<in> measure (\<lambda>(e, sid, tasks, p). remainingWork tasks p)"
    by (simp add: stepWorker_decreases)
qed

declare drain.simps [simp del]

fun runSchedule :: "env \<Rightarrow> string \<Rightarrow> task list \<Rightarrow> nat list \<Rightarrow> pool \<Rightarrow> pool" where
  "runSchedule e sid tasks [] p = p"
| "runSchedule e sid tasks (k # ks) p = runSchedule e sid tasks ks (stepWorker e sid tasks k p)"

definition runPool :: "env \<Rightarrow> string \<Rightarrow> task list \<Rightarrow> nat list \<Rightarrow> world \<Rightarrow> world" where
  "runPool e sid tasks schedule w =
     pworld (drain e sid tasks (runSchedule e sid tasks schedule (startPool e sid tasks w)))"

definition generateSignals :: "env \<Rightarrow> nat list \<Rightarrow> string \<Rightarrow> world \<Rightarrow> (string + unit) \<times> world" where
  "generateSignals e schedule sid w =
     (case storeGet e sid w of
        (None, w1) \<Rightarrow> (Inl ''Session lost'', w1)
      | (Some updatedSession, w1) \<Rightarrow>
         (case fixture (collectedData updatedSession) of
            None \<Rightarrow> (Inl ''Fixture data not available'', w1)
          | Some fx \<Rightarrow> (Inr (), runPool e sid getAllSignals schedule w1)))"

subsection \<open>Stage 3: category merge\<close>

text \<open>
  One iteration of the loop over the blueprint. The partial reports are read from the
  session object obtained at the start of the stage; nothing writes partial reports
  during this stage. Every error inside the iteration is caught.
\<close>

definition mergeOne :: "env \<Rightarrow> string \<Rightarrow> Session \<Rightarrow> FixtureData \<Rightarrow> CategoryDefinition \<Rightarrow> world \<Rightarrow> world" where
  "mergeOne e sid updatedSession fx category w =
     (let w1 = emitCategoryStart (cat_id category) (cat_name category) w;
          partials = List.map_filter
            (\<lambda>signal. partialReports updatedSession (taskKey (cat_id category, signal)))
            (signals category)
      in if partials = [] then w1
         else (case formatPartialReportsForCategory (llm e) partials of
                 Inl err \<Rightarrow> w1
               | Inr formattedReports \<Rightarrow>
                  (let w2 = resume w1
                   in case mergeCategory (llm e)
                             \<lparr>ci_homeTeam = homeTeamName fx, ci_awayTeam = awayTeamName fx,
                              ci_categoryName = cat_name category,
                              ci_categoryEmoji = cat_emoji category,
                              ci_signalReports = formattedReports\<rparr> of
                        Inl err \<Rightarrow> w2
                      | Inr result \<Rightarrow>
                          emitCategoryComplete (cat_id category)
                            (storeUpdate e sid
                               (noUpdate\<lparr>u_categoryReport := Some (cat_id category,
                                  \<lparr>cr_categoryId = cat_id category, cr_title = co_title result,
                                   cr_sections = co_sections result,
                                   cr_talkingPoints = co_talkingPoints result\<rparr>)\<rparr>) w2))))"

definition mergeCategories :: "env \<Rightarrow> string \<Rightarrow> world \<Rightarrow> (string + unit) \<times> world" where
  "mergeCategories e sid w =
     (case storeGet e sid w of
        (None, w1) \<Rightarrow> (Inl ''Session lost'', w1)
      | (Some updatedSession, w1) \<Rightarrow>
         (case fixture (collectedData updatedSession) of
            None \<Rightarrow> (Inl ''Fixture data not available'', w1)
          | Some fx \<Rightarrow>
              (Inr (), fold (mergeOne e sid updatedSession fx) REPORT_BLUEPRINT w1)))"

subsection \<open>Stage 4: final synthesis\<close>

definition synthesizeFinal :: "env \<Rightarrow> string \<Rightarrow> world \<Rightarrow> (string + unit) \<times> world" where
  "synthesizeFinal e sid w =
     (let w1 = emitFinalSynthesis ''Synthesizing final report...'' 5 w
      in case storeGet e sid w1 of
           (None, w2) \<Rightarrow> (Inl ''Session lost'', w2)
         | (Some updatedSession, w2) \<Rightarrow>
            (case fixture (collectedData updatedSession) of
               None \<Rightarrow> (Inl ''Fixture data not available'', w2)
             | Some fx \<Rightarrow>
                (case formatCategoryReportsForFinal (llm e) (categoryReports updatedSession) of
                   Inl err \<Rightarrow> (Inl err, w2)
                 | Inr formattedCategories \<Rightarrow>
                    (let w3 = resume (emitFinalSynthesis ''Generating comprehensive analysis...'' 7 w2)
                     in case synthesizeFinalReport (llm e)
                               \<lparr>fi_homeTeam = homeTeamName fx, fi_awayTeam = awayTeamName fx,
                                fi_league = leagueName fx,
                                fi_date = toLocaleDateString (llm e) (fixtureDate fx),
                                fi_categoryReports = formattedCategories\<rparr> of
                          Inl err \<Rightarrow> (Inl err, w3)
                        | Inr result \<Rightarrow>
                           (let w4 = emitFinalSynthesis ''Formatting final report...'' 9 w3
                            in case formatFinalReportAsMarkdown (llm e) result of
                                 Inl err \<Rightarrow> (Inl err, w4)
                               | Inr markdown \<Rightarrow>
                                   (Inr (), storeUpdate e sid
                                      (noUpdate\<lparr>u_finalReport := Some markdown\<rparr>) w4))))))"

subsection \<open>The run\<close>

text \<open>Sequencing inside the \<open>try\<close> block: a thrown error skips everything after it.\<close>

definition thenDo ::
    "(string + unit) \<times> world \<Rightarrow> (world \<Rightarrow> (string + unit) \<times> world) \<Rightarrow> (string + unit) \<times> world" where
  "thenDo r f = (case r of (Inl err, w) \<Rightarrow> (Inl err, w) | (Inr u, w) \<Rightarrow> f w)"

definition completedUpdate :: ProgressUpdate where
  "completedUpdate = \<lparr>stage = final_synthesis, progress = 100,
     message = ''Report generation completed!'', currentTask = None, details = None\<rparr>"

definition runStages :: "env \<Rightarrow> nat list \<Rightarrow> string \<Rightarrow> Session \<Rightarrow> world \<Rightarrow> (string + unit) \<times> world" where
  "runStages e schedule sid session w =
     thenDo (collectData e sid session
               (storeUpdate e sid (noUpdate\<lparr>u_status := Some Generating\<rparr>) w))
       (\<lambda>w. thenDo (generateSignals e schedule sid w)
         (\<lambda>w. thenDo (mergeCategories e sid w)
           (\<lambda>w. thenDo (synthesizeFinal e sid w)
             (\<lambda>w. (Inr (), callback completedUpdate
                        (storeUpdate e sid (noUpdate\<lparr>u_status := Some Completed\<rparr>) w))))))"

text \<open>
  \<open>generate\<close>: the error of a missing session is thrown before the \<open>try\<close> block; any
  error inside it is recorded in the session and thrown again. The errors thrown in a
  run are all instances of \<open>Error\<close> and are represented by their messages.
\<close>

definition generate :: "env \<Rightarrow> nat list \<Rightarrow> string \<Rightarrow> world \<Rightarrow> (string + unit) \<times> world" where
  "generate e schedule sid w =
     (case storeGet e sid w of
        (None, w0) \<Rightarrow> (Inl (''Session not found: '' @ sid), w0)
      | (Some session, w0) \<Rightarrow>
         (case runStages e schedule sid session
                 (w0\<lparr>tracker := newProgressTracker (length getAllSignals) (length REPORT_BLUEPRINT)\<rparr>) of
            (Inl err, w1) \<Rightarrow>
              (Inl err, storeUpdate e sid (noUpdate\<lparr>u_status := Some Error, u_error := Some err\<rparr>) w1)
          | (Inr u, w1) \<Rightarrow> (Inr (), w1)))"

section \<open>Auxiliary notions for the properties\<close>

text \<open>
  The session \<open>sid\<close> is stored as \<open>s\<close> and does not expire at any clock reading of the
  run.
\<close>

definition live :: "env \<Rightarrow> world \<Rightarrow> string \<Rightarrow> Session \<Rightarrow> bool" where
  "live e w sid s =
     (sessions (manager w) sid = Some s \<and> (\<forall>n. clock e n - createdAt s \<le> SESSION_TTL (manager w)))"

text \<open>
  The report a task writes when run against session \<open>s\<close>, or \<open>None\<close> when the task
  fails (an error before or in \<open>analyzeSignal\<close>).
\<close>

definition taskReport :: "Completion \<Rightarrow> Session \<Rightarrow> task \<Rightarrow> PartialReport option" where
  "taskReport service s t =
     (case signalInput service s t of
        Inl err \<Rightarrow> None
      | Inr input \<Rightarrow>
         (case analyzeSignal service input of
            Inl err \<Rightarrow> None
          | Inr result \<Rightarrow> Some (partialReportOf t result)))"



subsection \<open>Example surroundings\<close>

text \<open>A completion service that answers every call, and the same service without a key.\<close>

definition exampleCompletion :: Completion where
  "exampleCompletion =
     \<lparr>OPENAI_API_KEY = Some ''sk-test'',
      signalChain = (\<lambda>input. Inr (Some \<lparr>raw_insights = Some [''Home side unbeaten in five''],
         raw_narrative = Some ''The hosts arrive in form.'', raw_emoji = Some ''!'',
         raw_confidence = Some 0.8\<rparr>)),
      categoryChain = (\<lambda>input. Inr \<lparr>co_title = ci_categoryName input, co_sections = [],
         co_talkingPoints = []\<rparr>),
      finalChain = (\<lambda>input. Inr \<lparr>fo_title = ''Match report'', fo_subtitle = fi_league input,
         fo_sections = [], fo_quickTalkingPoints = []\<rparr>),
      formatCollectedDataForSignal = (\<lambda>cd requirements. Inr ''{}''),
      formatPartialReportsForCategory = (\<lambda>reports. Inr ''### Signal''),
      formatCategoryReportsForFinal = (\<lambda>reports. Inr ''## Category''),
      formatFinalReportAsMarkdown = (\<lambda>report. Inr (''# '' @ fo_title report)),
      toLocaleDateString = (\<lambda>d. d)\<rparr>"

definition exampleInput :: SignalChainInput where
  "exampleInput =
     \<lparr>in_homeTeam = ''Home FC'', in_awayTeam = ''Away United'', in_league = ''League'',
      in_date = ''2025-01-01'', in_signalName = ''Home vs Away Analysis'',
      in_signalDescription = ''Team names, venue advantage, and basic matchup info'',
      in_collectedData = ''{}''\<rparr>"

definition exampleFixture :: FixtureData where
  "exampleFixture =
     \<lparr>homeTeamId = 1, homeTeamName = ''Home FC'', awayTeamId = 2, awayTeamName = ''Away United'',
      leagueId = 39, leagueSeason = 2024, leagueName = ''League'', fixtureDate = ''2025-01-01''\<rparr>"

text \<open>A football API on which every fetch succeeds, and one on which every fetch fails.\<close>

definition exampleApi :: DataApi where
  "exampleApi =
     \<lparr>getFixtures = (\<lambda>fid. \<lparr>success = True, p_data = Some [exampleFixture], p_error = None\<rparr>),
      getStatistics = (\<lambda>fid. \<lparr>success = True, p_data = Some ''[]'', p_error = None\<rparr>),
      getInjuries = (\<lambda>fid. \<lparr>success = True, p_data = Some ''[]'', p_error = None\<rparr>),
      getLineups = (\<lambda>fid. \<lparr>success = True, p_data = Some ''[]'', p_error = None\<rparr>),
      getH2H = (\<lambda>home away. \<lparr>success = True, p_data = Some ''[]'', p_error = None\<rparr>),
      getStandings = (\<lambda>league season. \<lparr>success = True, p_data = Some ''[]'', p_error = None\<rparr>),
      getStandingsFallback = (\<lambda>league season. \<lparr>success = True, p_data = Some ''[]'', p_error = None\<rparr>)\<rparr>"

definition failingApi :: DataApi where
  "failingApi =
     \<lparr>getFixtures = (\<lambda>fid. \<lparr>success = False, p_data = None,
         p_error = Some ''Failed to fetch fixtures. Please try again.''\<rparr>),
      getStatistics = (\<lambda>fid. \<lparr>success = False, p_data = None, p_error = Some ''Failed to fetch statistics''\<rparr>),
      getInjuries = (\<lambda>fid. \<lparr>success = False, p_data = None, p_error = Some ''Failed to fetch injuries''\<rparr>),
      getLineups = (\<lambda>fid. \<lparr>success = False, p_data = None, p_error = Some ''Failed to fetch lineups''\<rparr>),
      getH2H = (\<lambda>home away. \<lparr>success = False, p_data = None, p_error = Some ''Failed to fetch H2H data''\<rparr>),
      getStandings = (\<lambda>league season. \<lparr>success = False, p_data = None, p_error = Some ''Failed to fetch standings''\<rparr>),
      getStandingsFallback = (\<lambda>league season. \<lparr>success = False, p_data = None, p_error = Some ''Failed to fetch standings''\<rparr>)\<rparr>"

definition exampleEnv :: env where
  "exampleEnv = \<lparr>clock = (\<lambda>n. 1000 + int (min n 100)), api = exampleApi, llm = exampleCompletion\<rparr>"

text \<open>A store holding one session created at time 0, and a world around it.\<close>

definition exampleSession :: Session where
  "exampleSession =
     \<lparr>sessionId = ''s1'', fixtureId = 12345, createdAt = 0, status = Pending, error = None,
      collectedData = emptyData, partialReports = Map.empty, categoryReports = Map.empty,
      finalReport = None, chatHistory = []\<rparr>"

definition worldWith :: "Session \<Rightarrow> world" where
  "worldWith s =
     \<lparr>manager = \<lparr>sessions = [sessionId s \<mapsto> s], SESSION_TTL = 7200000\<rparr>,
      tracker = newProgressTracker 0 0, emitted = [], tick = 0, writes = []\<rparr>"

text \<open>
  The fixture record the first fetch of stage 1 delivers, or \<open>None\<close> when that fetch fails:
  the proxy reports no success, or no data, or an empty list.
\<close>

definition primaryFixture :: "DataApi \<Rightarrow> int \<Rightarrow> FixtureData option" where
  "primaryFixture a fid =
     (case (if success (getFixtures a fid) then p_data (getFixtures a fid) else None) of
        Some (fx # others) \<Rightarrow> Some fx
      | _ \<Rightarrow> None)"

subsection \<open>Invariants of the worker pool\<close>

text \<open>Some worker is suspended in task \<open>i\<close>.\<close>

definition awaits :: "wstate list \<Rightarrow> nat \<Rightarrow> bool" where
  "awaits ws i = (\<exists>k < length ws. \<exists>input. ws ! k = WAwait i input)"

text \<open>The progress update \<open>u\<close> announces the start of task \<open>t\<close>.\<close>

definition started :: "task \<Rightarrow> ProgressUpdate \<Rightarrow> bool" where
  "started t u =
     (stage u = signal_generation \<and> currentTask u = Some (sig_name (snd t))
      \<and> (\<exists>d. details u = Some d \<and> d_categoryId d = fst t \<and> d_signalId d = Some (sig_id (snd t))))"

text \<open>
  What holds of the pool at every moment of stage 2, for a session that does not expire
  and was \<open>s0\<close> when the stage began: the stored session differs from \<open>s0\<close> in its
  partial reports only; a suspended worker holds a claimed task together with the input
  computed for it; every claimed task that is no longer in flight and succeeds has its
  report stored under its key; every key whose entry differs from that of \<open>s0\<close> holds the
  report of a claimed task with that key; every claimed task has announced its start; and
  a worker has left its loop only if every index is claimed.
\<close>

definition poolInv :: "env \<Rightarrow> string \<Rightarrow> task list \<Rightarrow> Session \<Rightarrow> pool \<Rightarrow> bool" where
  "poolInv e sid tasks s0 p =
     (\<exists>s. live e (pworld p) sid s
        \<and> s\<lparr>partialReports := partialReports s0\<rparr> = s0
        \<and> nextIndex p \<le> length tasks
        \<and> (tasks \<noteq> [] \<longrightarrow> workers p \<noteq> [])
        \<and> (WDone \<in> set (workers p) \<longrightarrow> nextIndex p = length tasks)
        \<and> (\<forall>k i input. k < length (workers p) \<and> workers p ! k = WAwait i input \<longrightarrow>
              i < nextIndex p \<and> signalInput (llm e) s0 (tasks ! i) = Inr input)
        \<and> (\<forall>i r. i < nextIndex p \<and> \<not> awaits (workers p) i
                \<and> taskReport (llm e) s0 (tasks ! i) = Some r \<longrightarrow>
              partialReports s (taskKey (tasks ! i)) = Some r)
        \<and> (\<forall>key. partialReports s key \<noteq> partialReports s0 key \<longrightarrow>
              (\<exists>i < nextIndex p. taskKey (tasks ! i) = key \<and> partialReports s key \<noteq> None
                 \<and> taskReport (llm e) s0 (tasks ! i) = partialReports s key))
        \<and> (\<forall>i < nextIndex p. \<exists>u \<in> set (emitted (pworld p)). started (tasks ! i) u))"

subsection \<open>Invariants of the logs\<close>

text \<open>
  \<open>bounded base b w\<close>: the progress log of \<open>w\<close> extends \<open>base\<close> by updates whose
  percentages are in non-decreasing order and at most \<open>b\<close>. \<open>quiet base w\<close>: the log of
  store updates of \<open>w\<close> extends \<open>base\<close> by updates that carry no status.
\<close>

definition bounded :: "ProgressUpdate list \<Rightarrow> int \<Rightarrow> world \<Rightarrow> bool" where
  "bounded base b w =
     (\<exists>es. emitted w = base @ es \<and> sorted (map progress es) \<and> (\<forall>u \<in> set es. progress u \<le> b))"

definition quiet :: "UpdateSessionParams list \<Rightarrow> world \<Rightarrow> bool" where
  "quiet base w = (\<exists>us. writes w = base @ us \<and> (\<forall>u \<in> set us. u_status u = None))"

definition flying :: "wstate \<Rightarrow> nat" where
  "flying x = (case x of WAwait i input \<Rightarrow> 1 | _ \<Rightarrow> 0)"

definition inFlight :: "wstate list \<Rightarrow> nat" where
  "inFlight ws = sum_list (map flying ws)"

definition poolTrace ::
    "ProgressUpdate list \<Rightarrow> UpdateSessionParams list \<Rightarrow> ProgressTracker \<Rightarrow> nat \<Rightarrow> pool \<Rightarrow> bool" where
  "poolTrace ebase wbase t0 n p =
     (bounded ebase (signalProgress (tracker (pworld p))) (pworld p)
      \<and> quiet wbase (pworld p)
      \<and> (\<exists>c. tracker (pworld p) = t0\<lparr>completedSignals := c\<rparr>
            \<and> c + inFlight (workers p) \<le> nextIndex p)
      \<and> nextIndex p \<le> n)"

definition stage1Trace ::
    "ProgressUpdate list \<Rightarrow> UpdateSessionParams list \<Rightarrow> ProgressTracker \<Rightarrow> world \<Rightarrow> bool" where
  "stage1Trace eb wb t w = (bounded eb 10 w \<and> quiet wb w \<and> tracker w = t)"

subsection \<open>Notions and examples for a whole stage and a whole run\<close>

text \<open>The example session after a successful stage 1, as far as stage 2 reads it.\<close>

definition stage2Session :: Session where
  "stage2Session = exampleSession\<lparr>collectedData := emptyData\<lparr>fixture := Some exampleFixture\<rparr>\<rparr>"

text \<open>
  The tasks of the blueprint that succeed when run against session \<open>s0\<close>: the argument of
  \<open>analyzeSignal\<close> can be built from the collected data and \<open>analyzeSignal\<close> returns.
\<close>

definition succeeded :: "Completion \<Rightarrow> Session \<Rightarrow> task set" where
  "succeeded service s0 = {t \<in> set getAllSignals. taskReport service s0 t \<noteq> None}"




text \<open>
  The logs at the end of the \<open>try\<close> block of a run that began with progress log \<open>eb\<close> and
  write log \<open>wb\<close>, the write of \<open>generating\<close> included: on an error, updates of at most 99
  and writes without a status; otherwise the same followed by the write of \<open>completed\<close> and
  the update of 100.
\<close>

definition runTrace ::
    "ProgressUpdate list \<Rightarrow> UpdateSessionParams list \<Rightarrow> (string + unit) \<Rightarrow> world \<Rightarrow> bool" where
  "runTrace eb wb r w =
     (case r of
        Inl err \<Rightarrow> bounded eb 99 w \<and> quiet wb w
      | Inr u \<Rightarrow> (\<exists>w4. bounded eb 99 w4 \<and> quiet wb w4
            \<and> emitted w = emitted w4 @ [completedUpdate]
            \<and> writes w = writes w4 @ [noUpdate\<lparr>u_status := Some Completed\<rparr>]))"

text \<open>The fields of a session that no stage of the pipeline writes.\<close>

definition frame ::
    "Session \<Rightarrow> string \<times> int \<times> int \<times> SessionStatus \<times> string option \<times> string option \<times> ChatMessage list" where
  "frame s = (sessionId s, fixtureId s, createdAt s, status s, error s, finalReport s, chatHistory s)"

text \<open>
  The session \<open>sid\<close> is stored, does not expire, agrees with \<open>s\<close> on the fields no stage
  writes, and holds the fixture \<open>fx\<close>.
\<close>

definition staged :: "env \<Rightarrow> string \<Rightarrow> Session \<Rightarrow> FixtureData \<Rightarrow> world \<Rightarrow> bool" where
  "staged e sid s fx w =
     (\<exists>s'. live e w sid s' \<and> frame s' = frame s \<and> fixture (collectedData s') = Some fx)"



text \<open>A service whose final chain throws.\<close>

definition brokenSynthesis :: Completion where
  "brokenSynthesis = exampleCompletion\<lparr>finalChain := (\<lambda>input. Inl ''Error: 500 Internal Server Error'')\<rparr>"


section \<open>Verified properties\<close>

subsection \<open>TTL cache\<close>

lemma ENDPOINT_TTL_CONFIG_pos: "ENDPOINT_TTL_CONFIG e = Some ttl \<Longrightarrow> 0 < ttl"
  by (auto simp: ENDPOINT_TTL_CONFIG_def split: if_splits)

text \<open>
  Claim C7. After \<open>set\<close> with no explicit TTL on an endpoint of the TTL table, a \<open>get\<close>
  with the same endpoint and parameters returns the stored value at the time of the
  \<open>set\<close> and at every time up to and including \<open>set time + TTL\<close>; at any later time
  it returns absent (\<open>null\<close>) and the entry is removed from the cache.
\<close>

theorem cache_set_then_get:
  assumes "ENDPOINT_TTL_CONFIG endpoint = Some ttl"
    and "c1 = cache_set c endpoint ps d None tset"
  shows "cache_get c1 endpoint ps tset = (Some d, c1)
       \<and> (t \<le> tset + ttl \<longrightarrow> cache_get c1 endpoint ps t = (Some d, c1))
       \<and> (tset + ttl < t \<longrightarrow>
            cache_get c1 endpoint ps t = (None, c1(generateKey endpoint ps := None)))"
  using assms ENDPOINT_TTL_CONFIG_pos[OF assms(1)]
  by (simp add: cache_get_def cache_set_def effectiveTTL_def truthyNum_def)

text \<open>The theorem at the endpoint \<open>/fixtures\<close> (TTL two minutes), set at time 1000.\<close>

theorem cache_set_then_get_witness:
  "ENDPOINT_TTL_CONFIG ''/fixtures'' = Some 120000
   \<and> cache_get (cache_set Map.empty ''/fixtures'' [(''id'', ''12345'')] ''payload'' None 1000)
        ''/fixtures'' [(''id'', ''12345'')] 1000
      = (Some ''payload'', cache_set Map.empty ''/fixtures'' [(''id'', ''12345'')] ''payload'' None 1000)
   \<and> cache_get (cache_set Map.empty ''/fixtures'' [(''id'', ''12345'')] ''payload'' None 1000)
        ''/fixtures'' [(''id'', ''12345'')] 121000
      = (Some ''payload'', cache_set Map.empty ''/fixtures'' [(''id'', ''12345'')] ''payload'' None 1000)
   \<and> fst (cache_get (cache_set Map.empty ''/fixtures'' [(''id'', ''12345'')] ''payload'' None 1000)
        ''/fixtures'' [(''id'', ''12345'')] 121001) = None
   \<and> snd (cache_get (cache_set Map.empty ''/fixtures'' [(''id'', ''12345'')] ''payload'' None 1000)
        ''/fixtures'' [(''id'', ''12345'')] 121001) (generateKey ''/fixtures'' [(''id'', ''12345'')]) = None"
proof -
  have h: "ENDPOINT_TTL_CONFIG ''/fixtures'' = Some 120000"
    by (simp add: ENDPOINT_TTL_CONFIG_def)
  show ?thesis
    using h cache_set_then_get[OF h refl, where t = 121000 and tset = 1000 and c = Map.empty
        and ps = "[(''id'', ''12345'')]" and d = "''payload''"]
      cache_set_then_get[OF h refl, where t = 121001 and tset = 1000 and c = Map.empty
        and ps = "[(''id'', ''12345'')]" and d = "''payload''"]
    by simp
qed

subsection \<open>Request throttle\<close>

lemma seq_spacing:
  "inOrder (lastRequestTime th) cs \<Longrightarrow> runThrottle th pending (sequentialCalls cs) = Some ts
   \<Longrightarrow> spaced (minDelayMs th) (lastRequestTime th # ts)"
proof (induction cs arbitrary: th pending ts)
  case Nil
  then show ?case by simp
next
  case (Cons c cs)
  obtain now fin where c: "c = (now, fin)" by (cases c)
  from Cons.prems(2) c obtain ts' where
    fin: "now + delayNeeded th now \<le> fin" and
    ts: "ts = fin # ts'" and
    rest: "runThrottle (acquired th fin) ((pending(0 \<mapsto> now + delayNeeded th now))(0 := None)) (sequentialCalls cs) = Some ts'"
    by (auto split: if_splits option.splits)
  from Cons.prems(1) c have ord: "lastRequestTime th \<le> now" "inOrder fin cs" by auto
  have "spaced (minDelayMs (acquired th fin)) (lastRequestTime (acquired th fin) # ts')"
    using Cons.IH[OF _ rest] ord by (simp add: acquired_def)
  moreover have "minDelayMs th \<le> fin - lastRequestTime th"
    using fin ord by (auto simp: delayNeeded_def Let_def split: if_splits)
  ultimately show ?case using ts by (simp add: acquired_def)
qed

lemma seq_length:
  "runThrottle th pending (sequentialCalls cs) = Some ts \<Longrightarrow> length ts = length cs"
proof (induction cs arbitrary: th pending ts)
  case Nil
  then show ?case by simp
next
  case (Cons c cs)
  obtain now fin where c: "c = (now, fin)" by (cases c)
  from Cons.prems c obtain ts' where
    ts: "ts = fin # ts'" and
    rest: "runThrottle (acquired th fin) ((pending(0 \<mapsto> now + delayNeeded th now))(0 := None)) (sequentialCalls cs) = Some ts'"
    by (auto split: if_splits option.splits)
  from Cons.IH[OF rest] ts show ?case by simp
qed

text \<open>
  Claim C2, as it holds on the code. For every positive configured rate \<open>N\<close>, when the
  throttle is used sequentially (each call entered after the previous one finished),
  every call acquires and any two consecutive acquisitions are at least
  \<open>ceil(60000/N)\<close> milliseconds apart.
\<close>

theorem throttle_sequential_spacing:
  assumes "0 < N"
    and "inOrder 0 cs"
    and "runThrottle (newRequestThrottle N) Map.empty (sequentialCalls cs) = Some ts"
  shows "spaced \<lceil>60000 / real_of_int N\<rceil> ts \<and> length ts = length cs"
proof -
  have "spaced (minDelayMs (newRequestThrottle N)) (lastRequestTime (newRequestThrottle N) # ts)"
    using assms(2,3) by (intro seq_spacing[where pending = Map.empty and cs = cs]) (simp_all add: newRequestThrottle_def)
  then have "spaced \<lceil>60000 / real_of_int N\<rceil> ts"
    by (cases ts) (simp_all add: newRequestThrottle_def)
  moreover have "length ts = length cs"
    using assms(3) by (rule seq_length)
  ultimately show ?thesis by simp
qed

text \<open>Three sequential calls at eight requests per minute (7500 ms apart).\<close>

theorem throttle_sequential_spacing_witness:
  "(0::int) < 8 \<and> inOrder 0 [(1000000, 1000000), (1000100, 1007500), (1009000, 1015000)]
   \<and> runThrottle (newRequestThrottle 8) Map.empty
         (sequentialCalls [(1000000, 1000000), (1000100, 1007500), (1009000, 1015000)])
       = Some [1000000, 1007500, 1015000]
   \<and> spaced \<lceil>60000 / real_of_int 8\<rceil> [1000000, 1007500, 1015000]"
proof -
  have r: "runThrottle (newRequestThrottle 8) Map.empty
         (sequentialCalls [(1000000, 1000000), (1000100, 1007500), (1009000, 1015000)])
       = Some [1000000, 1007500, 1015000]"
    by (simp add: newRequestThrottle_def delayNeeded_def acquired_def)
  have o: "inOrder 0 [(1000000, 1000000), (1000100, 1007500), (1009000, 1015000)]" by simp
  have p: "(0::int) < 8" by simp
  from throttle_sequential_spacing[OF p o r] r o show ?thesis by simp
qed

text \<open>
  Claim C2 as stated also covers callers that race. After one acquisition at time
  1000000, callers 1 and 2 enter at 1000001 and 1000002 while nobody has finished since:
  both compute their delay from the same \<open>lastRequestTime\<close>, both timers fire at
  1007500, and the two acquisitions are 0 ms apart instead of 7500.
\<close>

theorem throttle_concurrent_counterexample:
  "runThrottle (newRequestThrottle 8) Map.empty
     [Enter 0 1000000, Finish 0 1000000, Enter 1 1000001, Enter 2 1000002,
      Finish 1 1007500, Finish 2 1007500] = Some [1000000, 1007500, 1007500]
   \<and> \<not> spaced \<lceil>60000 / real_of_int 8\<rceil> [1000000, 1007500, 1007500]"
  by (simp add: newRequestThrottle_def delayNeeded_def acquired_def)

subsection \<open>External data client\<close>






subsection \<open>The store under a session that does not expire\<close>

lemma applyUpdates_createdAt [simp]: "createdAt (applyUpdates s u) = createdAt s"
  by (simp add: applyUpdates_def Let_def split: option.splits prod.splits)


lemma applyUpdates_partialReport:
  "applyUpdates s (noUpdate\<lparr>u_partialReport := Some (key, r)\<rparr>)
     = s\<lparr>partialReports := (partialReports s)(key \<mapsto> r)\<rparr>"
  by (simp add: applyUpdates_def noUpdate_def truthyStr_def)

lemma applyUpdates_categoryReport:
  "applyUpdates s (noUpdate\<lparr>u_categoryReport := Some (key, r)\<rparr>)
     = s\<lparr>categoryReports := (categoryReports s)(key \<mapsto> r)\<rparr>"
  by (simp add: applyUpdates_def noUpdate_def truthyStr_def)

lemma applyUpdates_collectedData:
  "applyUpdates s (noUpdate\<lparr>u_collectedData := Some cd\<rparr>)
     = s\<lparr>collectedData := spreadData (collectedData s) cd\<rparr>"
  by (simp add: applyUpdates_def noUpdate_def truthyStr_def)

lemma applyUpdates_statusOnly:
  "applyUpdates s (noUpdate\<lparr>u_status := Some st\<rparr>) = s\<lparr>status := st\<rparr>"
  by (simp add: applyUpdates_def noUpdate_def truthyStr_def)



lemma applyUpdates_error:
  "applyUpdates s (noUpdate\<lparr>u_status := Some st, u_error := Some msg\<rparr>)
     = (if msg \<noteq> [] then s\<lparr>status := st, error := Some msg\<rparr> else s\<lparr>status := st\<rparr>)"
  by (simp add: applyUpdates_def noUpdate_def truthyStr_def)

lemma live_getSession:
  assumes "live e w sid s"
  shows "getSession (manager w) sid (now e w) = (Some s, manager w)"
proof -
  from assms have "clock e (tick w) - createdAt s \<le> SESSION_TTL (manager w)"
    unfolding live_def by blast
  moreover from assms have "sessions (manager w) sid = Some s"
    by (simp add: live_def)
  ultimately show ?thesis
    by (simp add: getSession_def now_def)
qed

lemma live_storeGet: "live e w sid s \<Longrightarrow> storeGet e sid w = (Some s, w)"
  by (simp add: storeGet_def live_getSession)

lemma live_storeUpdate_eq:
  "live e w sid s \<Longrightarrow>
     storeUpdate e sid u w
       = w\<lparr>manager := (manager w)\<lparr>sessions := (sessions (manager w))(sid \<mapsto> applyUpdates s u)\<rparr>,
           writes := writes w @ [u]\<rparr>"
  by (simp add: storeUpdate_def updateSession_def live_getSession)

lemma live_storeUpdate:
  "live e w sid s \<Longrightarrow> live e (storeUpdate e sid u w) sid (applyUpdates s u)"
  by (simp add: live_storeUpdate_eq) (simp add: live_def)

lemma live_resume [simp]: "live e (resume w) sid s = live e w sid s"
  by (simp add: live_def resume_def)

lemma live_callback [simp]: "live e (callback u w) sid s = live e w sid s"
  by (simp add: live_def callback_def)

lemma live_tracker [simp]: "live e (w\<lparr>tracker := t\<rparr>) sid s = live e w sid s"
  by (simp add: live_def)

lemma live_unique: "live e w sid s \<Longrightarrow> live e w sid s' \<Longrightarrow> s' = s"
  by (simp add: live_def)

lemma live_emits [simp]:
  "live e (emitDataCollection msg w) sid s = live e w sid s"
  "live e (emitSignalStart c i n w) sid s = live e w sid s"
  "live e (emitSignalComplete c i w) sid s = live e w sid s"
  "live e (emitCategoryStart c n w) sid s = live e w sid s"
  "live e (emitCategoryComplete c w) sid s = live e w sid s"
  "live e (emitFinalSynthesis msg p w) sid s = live e w sid s"
  by (simp_all add: emitDataCollection_def emitSignalStart_def emitSignalComplete_def
        emitCategoryStart_def emitCategoryComplete_def emitFinalSynthesis_def Let_def)


lemma collectData_fails:
  "primaryFixture (api e) (fixtureId session) = None \<Longrightarrow>
     collectData e sid session w
       = (Inl ''Failed to fetch fixture details'',
          resume (emitDataCollection ''Fetching fixture details...'' w))"
  by (auto simp: primaryFixture_def collectData_def Let_def split: option.splits list.splits if_splits)

lemma generate_fixture_fails:
  assumes l: "live e w sid s"
    and f: "primaryFixture (api e) (fixtureId s) = None"
  shows "generate e schedule sid w
     = (Inl ''Failed to fetch fixture details'',
        w\<lparr>manager := (manager w)\<lparr>sessions := (sessions (manager w))
              (sid \<mapsto> s\<lparr>status := Error, error := Some ''Failed to fetch fixture details''\<rparr>)\<rparr>,
          tracker := newProgressTracker (length getAllSignals) (length REPORT_BLUEPRINT),
          emitted := emitted w @ [\<lparr>stage = data_collection, progress = 10,
             message = ''Fetching fixture details...'',
             currentTask = Some ''Fetching fixture details...'', details = None\<rparr>],
          tick := Suc (tick w),
          writes := writes w @ [noUpdate\<lparr>u_status := Some Generating\<rparr>,
             noUpdate\<lparr>u_status := Some Error, u_error := Some ''Failed to fetch fixture details''\<rparr>]\<rparr>)"
proof -
  let ?t = "newProgressTracker (length getAllSignals) (length REPORT_BLUEPRINT)"
  let ?w0 = "w\<lparr>tracker := ?t\<rparr>"
  let ?w1 = "storeUpdate e sid (noUpdate\<lparr>u_status := Some Generating\<rparr>) ?w0"
  let ?w2 = "resume (emitDataCollection ''Fetching fixture details...'' ?w1)"
  have l0: "live e ?w0 sid s" using l by simp
  have l1: "live e ?w1 sid (s\<lparr>status := Generating\<rparr>)"
    using live_storeUpdate[OF l0, of "noUpdate\<lparr>u_status := Some Generating\<rparr>"]
    by (simp add: applyUpdates_statusOnly)
  have l2: "live e ?w2 sid (s\<lparr>status := Generating\<rparr>)" using l1 by simp
  have rs: "runStages e schedule sid s ?w0 = (Inl ''Failed to fetch fixture details'', ?w2)"
    by (simp add: runStages_def collectData_fails[OF f] thenDo_def)
  have g: "generate e schedule sid w
      = (Inl ''Failed to fetch fixture details'',
         storeUpdate e sid (noUpdate\<lparr>u_status := Some Error,
            u_error := Some ''Failed to fetch fixture details''\<rparr>) ?w2)"
    by (simp add: generate_def live_storeGet[OF l] rs)
  show ?thesis
    unfolding g
    by (subst live_storeUpdate_eq[OF l2])
       (simp add: live_storeUpdate_eq[OF l0] applyUpdates_error
          applyUpdates_statusOnly resume_def emitDataCollection_def callback_def)
qed


lemma live_example:
  "clock e = clock exampleEnv \<Longrightarrow> createdAt s = 0 \<Longrightarrow> sessionId s = sid
     \<Longrightarrow> live e (worldWith s) sid s"
  by (auto simp: live_def exampleEnv_def worldWith_def min_def)

text \<open>
  Claim C4. When the first fixture fetch of stage 1 fails on a session that does not expire,
  the run throws \<open>Failed to fetch fixture details\<close>; the session is left with status
  \<open>error\<close> and that message; the only progress update of the run is the first one of
  data collection, so no signal task has started; and the only writes to the store are the
  two status updates, so no partial report has been written.
\<close>

theorem primary_fetch_failure_aborts:
  assumes "live e w sid s"
    and "primaryFixture (api e) (fixtureId s) = None"
    and "generate e schedule sid w = (r, w')"
  shows "r = Inl ''Failed to fetch fixture details''
       \<and> live e w' sid (s\<lparr>status := Error, error := Some ''Failed to fetch fixture details''\<rparr>)
       \<and> emitted w' = emitted w @ [\<lparr>stage = data_collection, progress = 10,
             message = ''Fetching fixture details...'',
             currentTask = Some ''Fetching fixture details...'', details = None\<rparr>]
       \<and> writes w' = writes w @ [noUpdate\<lparr>u_status := Some Generating\<rparr>,
             noUpdate\<lparr>u_status := Some Error, u_error := Some ''Failed to fetch fixture details''\<rparr>]
       \<and> (\<forall>u \<in> set (drop (length (emitted w)) (emitted w')). stage u \<noteq> signal_generation)
       \<and> (\<forall>u \<in> set (drop (length (writes w)) (writes w')). u_partialReport u = None)"
proof -
  from assms(3) generate_fixture_fails[OF assms(1,2), of schedule]
  have r: "r = Inl ''Failed to fetch fixture details''"
    and w': "w' = w\<lparr>manager := (manager w)\<lparr>sessions := (sessions (manager w))
              (sid \<mapsto> s\<lparr>status := Error, error := Some ''Failed to fetch fixture details''\<rparr>)\<rparr>,
          tracker := newProgressTracker (length getAllSignals) (length REPORT_BLUEPRINT),
          emitted := emitted w @ [\<lparr>stage = data_collection, progress = 10,
             message = ''Fetching fixture details...'',
             currentTask = Some ''Fetching fixture details...'', details = None\<rparr>],
          tick := Suc (tick w),
          writes := writes w @ [noUpdate\<lparr>u_status := Some Generating\<rparr>,
             noUpdate\<lparr>u_status := Some Error, u_error := Some ''Failed to fetch fixture details''\<rparr>]\<rparr>"
    by simp_all
  have "live e w' sid (s\<lparr>status := Error, error := Some ''Failed to fetch fixture details''\<rparr>)"
    using assms(1) unfolding w' by (simp add: live_def)
  then show ?thesis using r by (simp add: w' noUpdate_def)
qed

text \<open>The theorem on a football API that refuses every fetch.\<close>

theorem primary_fetch_failure_aborts_witness:
  "live (exampleEnv\<lparr>api := failingApi\<rparr>) (worldWith exampleSession) ''s1'' exampleSession
   \<and> primaryFixture failingApi 12345 = None
   \<and> fst (generate (exampleEnv\<lparr>api := failingApi\<rparr>) [] ''s1'' (worldWith exampleSession))
       = Inl ''Failed to fetch fixture details''
   \<and> live (exampleEnv\<lparr>api := failingApi\<rparr>)
        (snd (generate (exampleEnv\<lparr>api := failingApi\<rparr>) [] ''s1'' (worldWith exampleSession)))
        ''s1'' (exampleSession\<lparr>status := Error, error := Some ''Failed to fetch fixture details''\<rparr>)
   \<and> map (\<lambda>u. (stage u, progress u))
        (emitted (snd (generate (exampleEnv\<lparr>api := failingApi\<rparr>) [] ''s1'' (worldWith exampleSession))))
       = [(data_collection, 10)]"
proof -
  let ?e = "exampleEnv\<lparr>api := failingApi\<rparr>"
  have l: "live ?e (worldWith exampleSession) ''s1'' exampleSession"
    by (rule live_example) (simp_all add: exampleSession_def)
  have f: "primaryFixture (api ?e) (fixtureId exampleSession) = None"
    by (simp add: primaryFixture_def failingApi_def exampleEnv_def)
  have f': "primaryFixture failingApi 12345 = None"
    by (simp add: primaryFixture_def failingApi_def)
  obtain r w' where g: "generate ?e [] ''s1'' (worldWith exampleSession) = (r, w')"
    by (cases "generate ?e [] ''s1'' (worldWith exampleSession)")
  have em: "emitted (worldWith exampleSession) = []" by (simp add: worldWith_def)
  from primary_fetch_failure_aborts[OF l f g] l f' show ?thesis
    by (simp add: g em)
qed

subsection \<open>analyzeSignal\<close>

text \<open>
  Claim C10 as stated says that \<open>analyzeSignal\<close> never propagates an error. The chain is
  built by \<open>createSignalChain()\<close> on the first line of the function, outside the \<open>try\<close>
  block, and \<open>getChatModel\<close> throws when \<open>OPENAI_API_KEY\<close> is not set: that error leaves
  \<open>analyzeSignal\<close>.
\<close>

theorem analyzeSignal_without_key:
  "analyzeSignal (exampleCompletion\<lparr>OPENAI_API_KEY := None\<rparr>) exampleInput
     = Inl ''OPENAI_API_KEY environment variable is not set''"
  by (simp add: analyzeSignal_def createSignalChain_def getChatModel_def truthyStr_def)

lemma live_finishTask:
  assumes "live e w sid s" and "analyzeSignal (llm e) input = Inr result"
  shows "live e (finishTask e sid t input w) sid
           (s\<lparr>partialReports := (partialReports s)(taskKey t \<mapsto> partialReportOf t result)\<rparr>)"
  using live_storeUpdate[OF assms(1), of "noUpdate\<lparr>u_partialReport := Some (taskKey t, partialReportOf t result)\<rparr>"]
  by (simp add: finishTask_def assms(2) applyUpdates_partialReport)

text \<open>
  Claim C10, as it holds on the code. When \<open>OPENAI_API_KEY\<close> is set, \<open>analyzeSignal\<close>
  returns a result on every input: the fixed fallback (confidence 0.3) when the model
  invocation throws; and, when the model returns a result that lacks a narrative, an
  emoji or a numeric confidence, that result with the defaults filled in (confidence 0.5
  when it is missing). Consequently a signal task whose model invocation throws still
  writes a partial report, the fallback, under its composite key.
\<close>

theorem analyzeSignal_with_key:
  assumes "truthyStr (OPENAI_API_KEY (llm e))"
  shows "(\<exists>result. analyzeSignal (llm e) input = Inr result)
       \<and> (\<forall>err. signalChain (llm e) input = Inl err \<longrightarrow>
             analyzeSignal (llm e) input = Inr (fallbackSignal input))
       \<and> out_confidence (fallbackSignal input) = 0.3
       \<and> (\<forall>raw. signalChain (llm e) input = Inr (Some raw)
               \<and> (\<not> truthyStr (raw_narrative raw) \<or> \<not> truthyStr (raw_emoji raw) \<or> raw_confidence raw = None) \<longrightarrow>
             (\<exists>result. analyzeSignal (llm e) input = Inr result
                \<and> out_insights result = Some (case raw_insights raw of Some xs \<Rightarrow> xs | None \<Rightarrow> [])
                \<and> out_narrative result = (if truthyStr (raw_narrative raw) then the (raw_narrative raw)
                      else ''No narrative available - data analysis in progress.'')
                \<and> out_emoji result = (if truthyStr (raw_emoji raw) then the (raw_emoji raw) else soccerBall)
                \<and> out_confidence result = (case raw_confidence raw of Some x \<Rightarrow> x | None \<Rightarrow> 0.5)))
       \<and> (\<forall>err s. signalChain (llm e) input = Inl err \<and> live e w sid s \<longrightarrow>
             live e (finishTask e sid t input w) sid
               (s\<lparr>partialReports := (partialReports s)
                     (taskKey t \<mapsto> partialReportOf t (fallbackSignal input))\<rparr>))"
proof -
  have c: "createSignalChain (llm e) = Inr ()"
    using assms by (simp add: createSignalChain_def getChatModel_def)
  have a: "\<exists>result. analyzeSignal (llm e) input = Inr result"
    by (auto simp: analyzeSignal_def c split: sum.splits option.splits)
  have b: "signalChain (llm e) input = Inl err \<Longrightarrow>
             analyzeSignal (llm e) input = Inr (fallbackSignal input)" for err
    by (simp add: analyzeSignal_def c)
  have d: "signalChain (llm e) input = Inr (Some raw) \<Longrightarrow>
      \<not> truthyStr (raw_narrative raw) \<or> \<not> truthyStr (raw_emoji raw) \<or> raw_confidence raw = None \<Longrightarrow>
      analyzeSignal (llm e) input = Inr
        \<lparr>out_insights = Some (case raw_insights raw of Some xs \<Rightarrow> xs | None \<Rightarrow> []),
         out_narrative = (if truthyStr (raw_narrative raw) then the (raw_narrative raw)
                      else ''No narrative available - data analysis in progress.''),
         out_emoji = (if truthyStr (raw_emoji raw) then the (raw_emoji raw) else soccerBall),
         out_confidence = (case raw_confidence raw of Some x \<Rightarrow> x | None \<Rightarrow> 0.5)\<rparr>" for raw
    by (simp add: analyzeSignal_def c)
  show ?thesis
    using a b d live_finishTask[where e = e and w = w and sid = sid and t = t and input = input
       and result = "fallbackSignal input"]
    by (auto simp: fallbackSignal_def)
qed

text \<open>The theorem on a completion service whose signal chain always throws.\<close>

theorem analyzeSignal_with_key_witness:
  "truthyStr (OPENAI_API_KEY (exampleCompletion\<lparr>signalChain := (\<lambda>input. Inl ''Error: timeout'')\<rparr>))
   \<and> analyzeSignal (exampleCompletion\<lparr>signalChain := (\<lambda>input. Inl ''Error: timeout'')\<rparr>) exampleInput
        = Inr (fallbackSignal exampleInput)
   \<and> out_confidence (fallbackSignal exampleInput) = 0.3
   \<and> live (exampleEnv\<lparr>llm := exampleCompletion\<lparr>signalChain := (\<lambda>input. Inl ''Error: timeout'')\<rparr>\<rparr>)
        (finishTask (exampleEnv\<lparr>llm := exampleCompletion\<lparr>signalChain := (\<lambda>input. Inl ''Error: timeout'')\<rparr>\<rparr>)
           ''s1'' (hd getAllSignals) exampleInput (worldWith exampleSession))
        ''s1''
        (exampleSession\<lparr>partialReports := (partialReports exampleSession)
           (taskKey (hd getAllSignals) \<mapsto> partialReportOf (hd getAllSignals) (fallbackSignal exampleInput))\<rparr>)"
proof -
  let ?c = "exampleCompletion\<lparr>signalChain := (\<lambda>input. Inl ''Error: timeout'')\<rparr>"
  let ?e = "exampleEnv\<lparr>llm := ?c\<rparr>"
  have k: "truthyStr (OPENAI_API_KEY (llm ?e))"
    by (simp add: exampleCompletion_def truthyStr_def)
  have l: "live ?e (worldWith exampleSession) ''s1'' exampleSession"
    by (rule live_example) (simp_all add: exampleSession_def)
  have t: "signalChain (llm ?e) exampleInput = Inl ''Error: timeout''" by simp
  from analyzeSignal_with_key[OF k, of exampleInput "worldWith exampleSession" "''s1''" "hd getAllSignals"]
    k l t
  show ?thesis by simp
qed

subsection \<open>The worker pool\<close>

lemma stepBody_length [simp]:
  "length (workers (stepBody e sid tasks k p)) = length (workers p)"
  by (simp add: stepBody_def Let_def split: wstate.splits prod.splits)

lemma stepWorker_length [simp]:
  "length (workers (stepWorker e sid tasks k p)) = length (workers p)"
  by (simp add: stepWorker_def)

text \<open>
  A property of pools that holds when the workers are created and is kept by every
  stretch of a worker and by every suspension holds when the pool has run.
\<close>

lemma fold_stepBody:
  assumes step: "\<And>p k. P p \<Longrightarrow> k < length (workers p) \<Longrightarrow> P (stepBody e sid tasks k p)"
    and "P p" and "\<forall>k \<in> set ks. k < length (workers p)"
  shows "P (fold (stepBody e sid tasks) ks p)"
  using assms(2,3)
proof (induction ks arbitrary: p)
  case Nil
  then show ?case by simp
next
  case (Cons k ks)
  have "P (stepBody e sid tasks k p)" using Cons.prems by (intro step) simp_all
  then show ?case using Cons.prems by (simp add: Cons.IH)
qed

lemma stepWorker_keeps:
  assumes step: "\<And>p k. P p \<Longrightarrow> k < length (workers p) \<Longrightarrow> P (stepBody e sid tasks k p)"
    and susp: "\<And>p. P p \<Longrightarrow> P (p\<lparr>pworld := resume (pworld p)\<rparr>)"
    and "P p"
  shows "P (stepWorker e sid tasks k p)"
  using assms(3) by (auto simp: stepWorker_def active_def intro!: step susp)

lemma runSchedule_keeps:
  assumes step: "\<And>p k. P p \<Longrightarrow> k < length (workers p) \<Longrightarrow> P (stepBody e sid tasks k p)"
    and susp: "\<And>p. P p \<Longrightarrow> P (p\<lparr>pworld := resume (pworld p)\<rparr>)"
    and "P p"
  shows "P (runSchedule e sid tasks schedule p)"
  using assms(3)
proof (induction schedule arbitrary: p)
  case Nil
  then show ?case by simp
next
  case (Cons k ks)
  have "P (stepWorker e sid tasks k p)"
    by (rule stepWorker_keeps[where P = P]) (auto intro: step susp Cons.prems)
  then show ?case by (simp add: Cons.IH)
qed

lemma drain_keeps:
  assumes "\<And>p k. P p \<Longrightarrow> k < length (workers p) \<Longrightarrow> P (stepBody e sid tasks k p)"
    and "\<And>p. P p \<Longrightarrow> P (p\<lparr>pworld := resume (pworld p)\<rparr>)"
    and "P p"
  shows "P (drain e sid tasks p)"
  using assms
proof (induction e sid tasks p rule: drain.induct)
  case (1 e sid tasks p)
  show ?case
  proof (cases "firstActive (workers p)")
    case None
    then show ?thesis using "1.prems"(3) by (simp add: drain.simps)
  next
    case (Some k)
    have "P (stepWorker e sid tasks k p)"
      by (rule stepWorker_keeps[where P = P]) (auto intro: "1.prems")
    then have "P (drain e sid tasks (stepWorker e sid tasks k p))"
      by (intro "1.IH"[OF Some]) (auto intro: "1.prems")
    then show ?thesis using Some by (simp add: drain.simps)
  qed
qed

lemma drain_done: "\<forall>x \<in> set (workers (drain e sid tasks p)). x = WDone"
proof (induction e sid tasks p rule: drain.induct)
  case (1 e sid tasks p)
  show ?case
  proof (cases "firstActive (workers p)")
    case None
    then show ?thesis using firstActive_None[OF None] by (simp add: drain.simps)
  next
    case (Some k)
    then show ?thesis using "1.IH"[OF Some] by (simp add: drain.simps)
  qed
qed

lemma runPool_keeps:
  assumes step: "\<And>p k. P p \<Longrightarrow> k < length (workers p) \<Longrightarrow> P (stepBody e sid tasks k p)"
    and susp: "\<And>p. P p \<Longrightarrow> P (p\<lparr>pworld := resume (pworld p)\<rparr>)"
    and init: "P \<lparr>nextIndex = 0, workers = replicate (min signalConcurrency (length tasks)) WReady,
                 pworld = w\<rparr>"
  shows "\<exists>p. runPool e sid tasks schedule w = pworld p \<and> P p \<and> (\<forall>x \<in> set (workers p). x = WDone)"
proof -
  let ?p0 = "\<lparr>nextIndex = 0, workers = replicate (min signalConcurrency (length tasks)) WReady,
               pworld = w\<rparr>"
  have "P (startPool e sid tasks w)"
    unfolding startPool_def
    by (rule fold_stepBody[where P = P]) (auto intro: step init)
  then have "P (runSchedule e sid tasks schedule (startPool e sid tasks w))"
    by (intro runSchedule_keeps[where P = P]) (auto intro: step susp)
  then have "P (drain e sid tasks (runSchedule e sid tasks schedule (startPool e sid tasks w)))"
    by (intro drain_keeps[where P = P]) (auto intro: step susp)
  then show ?thesis unfolding runPool_def using drain_done by blast
qed

subsection \<open>Frame lemmas\<close>

lemma emitted_simps [simp]:
  "emitted (resume w) = emitted w"
  "emitted (callback u w) = emitted w @ [u]"
  "emitted (storeUpdate e sid upd w) = emitted w"
  "emitted (snd (storeGet e sid w)) = emitted w"
  by (simp_all add: resume_def callback_def storeUpdate_def storeGet_def split: prod.splits)

lemma tracker_simps [simp]:
  "tracker (resume w) = tracker w"
  "tracker (callback u w) = tracker w"
  "tracker (storeUpdate e sid upd w) = tracker w"
  "tracker (snd (storeGet e sid w)) = tracker w"
  by (simp_all add: resume_def callback_def storeUpdate_def storeGet_def split: prod.splits)

lemma writes_simps [simp]:
  "writes (resume w) = writes w"
  "writes (callback u w) = writes w"
  "writes (storeUpdate e sid upd w) = writes w @ [upd]"
  "writes (snd (storeGet e sid w)) = writes w"
  by (simp_all add: resume_def callback_def storeUpdate_def storeGet_def split: prod.splits)

lemma signalInput_partialReports:
  assumes "s\<lparr>partialReports := pr\<rparr> = s0"
  shows "signalInput service s t = signalInput service s0 t"
proof -
  have "collectedData (s\<lparr>partialReports := pr\<rparr>) = collectedData s0" using assms by simp
  then show ?thesis by (simp add: signalInput_def split: option.splits)
qed

lemma startTask_live:
  assumes "live e w sid s"
  shows "startTask e sid t c w
     = (case signalInput (llm e) s t of Inl err \<Rightarrow> WReady | Inr input \<Rightarrow> WAwait c input,
        emitSignalStart (fst t) (sig_id (snd t)) (sig_name (snd t)) w)"
proof -
  have "live e (emitSignalStart (fst t) (sig_id (snd t)) (sig_name (snd t)) w) sid s"
    using assms by simp
  from live_storeGet[OF this] show ?thesis
    by (simp add: startTask_def Let_def split: sum.splits)
qed

lemma started_emitSignalStart:
  "\<exists>u \<in> set (emitted (emitSignalStart (fst t) (sig_id (snd t)) (sig_name (snd t)) w)). started t u"
  by (simp add: emitSignalStart_def started_def)

lemma emitted_grows:
  "set (emitted w) \<subseteq> set (emitted (emitSignalStart c i n w))"
  "set (emitted w) \<subseteq> set (emitted (emitSignalComplete c i w))"
  "set (emitted w) \<subseteq> set (emitted (finishTask e sid t input w))"
  by (auto simp: emitSignalStart_def emitSignalComplete_def finishTask_def Let_def split: sum.splits)

lemma awaits_after_ready:
  "awaits (ws[k := WReady]) j \<Longrightarrow> awaits ws j"
  "awaits (ws[k := WDone]) j \<Longrightarrow> awaits ws j"
  unfolding awaits_def
  by (metis length_list_update nth_list_update_eq nth_list_update_neq wstate.distinct(1,5))+

lemma awaits_after_claim:
  "awaits ws j \<Longrightarrow> ws ! k = WReady \<Longrightarrow> awaits (ws[k := x]) j"
  unfolding awaits_def
  by (metis length_list_update nth_list_update_neq wstate.distinct(1))

lemma awaits_after_finish:
  "awaits ws j \<Longrightarrow> ws ! k = WAwait i input \<Longrightarrow> j \<noteq> i \<Longrightarrow> awaits (ws[k := x]) j"
  unfolding awaits_def
  by (metis length_list_update nth_list_update_neq wstate.inject)

lemma awaits_claimed:
  "k < length ws \<Longrightarrow> awaits (ws[k := WAwait c input]) c"
  by (auto simp: awaits_def)

subsection \<open>The pool under a session that does not expire\<close>

lemma poolInvI:
  assumes "live e (pworld p) sid s"
    and "s\<lparr>partialReports := partialReports s0\<rparr> = s0"
    and "nextIndex p \<le> length tasks"
    and "tasks \<noteq> [] \<Longrightarrow> workers p \<noteq> []"
    and "WDone \<in> set (workers p) \<Longrightarrow> nextIndex p = length tasks"
    and "\<And>k i input. k < length (workers p) \<Longrightarrow> workers p ! k = WAwait i input \<Longrightarrow>
            i < nextIndex p \<and> signalInput (llm e) s0 (tasks ! i) = Inr input"
    and "\<And>i r. i < nextIndex p \<Longrightarrow> \<not> awaits (workers p) i \<Longrightarrow>
            taskReport (llm e) s0 (tasks ! i) = Some r \<Longrightarrow>
            partialReports s (taskKey (tasks ! i)) = Some r"
    and "\<And>key. partialReports s key \<noteq> partialReports s0 key \<Longrightarrow>
            \<exists>i < nextIndex p. taskKey (tasks ! i) = key \<and> partialReports s key \<noteq> None
               \<and> taskReport (llm e) s0 (tasks ! i) = partialReports s key"
    and "\<And>i. i < nextIndex p \<Longrightarrow> \<exists>u \<in> set (emitted (pworld p)). started (tasks ! i) u"
  shows "poolInv e sid tasks s0 p"
  unfolding poolInv_def
  apply (rule exI[of _ s])
  using assms apply (intro conjI)
          apply blast
         apply blast
        apply blast
       apply blast
      apply blast
     apply blast
    apply blast
   apply blast
  apply blast
  done

lemma poolInvE:
  assumes "poolInv e sid tasks s0 p"
  obtains s where "live e (pworld p) sid s"
    and "s\<lparr>partialReports := partialReports s0\<rparr> = s0"
    and "nextIndex p \<le> length tasks"
    and "tasks \<noteq> [] \<longrightarrow> workers p \<noteq> []"
    and "WDone \<in> set (workers p) \<longrightarrow> nextIndex p = length tasks"
    and "\<forall>k i input. k < length (workers p) \<and> workers p ! k = WAwait i input \<longrightarrow>
            i < nextIndex p \<and> signalInput (llm e) s0 (tasks ! i) = Inr input"
    and "\<forall>i r. i < nextIndex p \<and> \<not> awaits (workers p) i
            \<and> taskReport (llm e) s0 (tasks ! i) = Some r \<longrightarrow>
            partialReports s (taskKey (tasks ! i)) = Some r"
    and "\<forall>key. partialReports s key \<noteq> partialReports s0 key \<longrightarrow>
            (\<exists>i < nextIndex p. taskKey (tasks ! i) = key \<and> partialReports s key \<noteq> None
               \<and> taskReport (llm e) s0 (tasks ! i) = partialReports s key)"
    and "\<forall>i < nextIndex p. \<exists>u \<in> set (emitted (pworld p)). started (tasks ! i) u"
proof -
  from assms obtain s where
    "live e (pworld p) sid s
        \<and> s\<lparr>partialReports := partialReports s0\<rparr> = s0
        \<and> nextIndex p \<le> length tasks
        \<and> (tasks \<noteq> [] \<longrightarrow> workers p \<noteq> [])
        \<and> (WDone \<in> set (workers p) \<longrightarrow> nextIndex p = length tasks)
        \<and> (\<forall>k i input. k < length (workers p) \<and> workers p ! k = WAwait i input \<longrightarrow>
              i < nextIndex p \<and> signalInput (llm e) s0 (tasks ! i) = Inr input)
        \<and> (\<forall>i r. i < nextIndex p \<and> \<not> awaits (workers p) i
                \<and> taskReport (llm e) s0 (tasks ! i) = Some r \<longrightarrow>
              partialReports s (taskKey (tasks ! i)) = Some r)
        \<and> (\<forall>key. partialReports s key \<noteq> partialReports s0 key \<longrightarrow>
              (\<exists>i < nextIndex p. taskKey (tasks ! i) = key \<and> partialReports s key \<noteq> None
                 \<and> taskReport (llm e) s0 (tasks ! i) = partialReports s key))
        \<and> (\<forall>i < nextIndex p. \<exists>u \<in> set (emitted (pworld p)). started (tasks ! i) u)"
    unfolding poolInv_def ..
  then show thesis by (intro that[of s]) blast+
qed

lemma poolInv_leave:
  assumes inv: "poolInv e sid tasks s0 p"
    and k: "k < length (workers p)" and rdy: "workers p ! k = WReady"
    and full: "\<not> nextIndex p < length tasks"
  shows "poolInv e sid tasks s0 (p\<lparr>workers := (workers p)[k := WDone]\<rparr>)"
proof -
  define p' where "p' = p\<lparr>workers := (workers p)[k := WDone]\<rparr>"
  have p': "nextIndex p' = nextIndex p" "workers p' = (workers p)[k := WDone]" "pworld p' = pworld p"
    by (simp_all add: p'_def)
  from inv obtain s where
    l: "live e (pworld p) sid s" and
    c: "s\<lparr>partialReports := partialReports s0\<rparr> = s0" and
    n: "nextIndex p \<le> length tasks" and
    ne: "tasks \<noteq> [] \<longrightarrow> workers p \<noteq> []" and
    dn: "WDone \<in> set (workers p) \<longrightarrow> nextIndex p = length tasks" and
    aw: "\<forall>k i input. k < length (workers p) \<and> workers p ! k = WAwait i input \<longrightarrow>
            i < nextIndex p \<and> signalInput (llm e) s0 (tasks ! i) = Inr input" and
    A: "\<forall>i r. i < nextIndex p \<and> \<not> awaits (workers p) i
            \<and> taskReport (llm e) s0 (tasks ! i) = Some r \<longrightarrow>
            partialReports s (taskKey (tasks ! i)) = Some r" and
    B: "\<forall>key. partialReports s key \<noteq> partialReports s0 key \<longrightarrow>
            (\<exists>i < nextIndex p. taskKey (tasks ! i) = key \<and> partialReports s key \<noteq> None
               \<and> taskReport (llm e) s0 (tasks ! i) = partialReports s key)" and
    G: "\<forall>i < nextIndex p. \<exists>u \<in> set (emitted (pworld p)). started (tasks ! i) u"
    by (rule poolInvE)
  have "poolInv e sid tasks s0 p'"
  proof (rule poolInvI[where s = s])
    show "live e (pworld p') sid s" using l by (simp add: p')
    show "s\<lparr>partialReports := partialReports s0\<rparr> = s0" by (rule c)
    show "nextIndex p' \<le> length tasks" using n by (simp add: p')
    show "workers p' \<noteq> []" if "tasks \<noteq> []" using that ne by (simp add: p')
    show "nextIndex p' = length tasks" if "WDone \<in> set (workers p')"
      using n full by (simp add: p')
    show "i < nextIndex p' \<and> signalInput (llm e) s0 (tasks ! i) = Inr input"
      if "j < length (workers p')" "workers p' ! j = WAwait i input" for j i input
    proof -
      have "j \<noteq> k" using that k by (auto simp: p')
      then show ?thesis using that aw by (simp add: p')
    qed
    show "partialReports s (taskKey (tasks ! i)) = Some r"
      if "i < nextIndex p'" "\<not> awaits (workers p') i" "taskReport (llm e) s0 (tasks ! i) = Some r" for i r
    proof -
      have "\<not> awaits (workers p) i"
        using that(2) awaits_after_claim[OF _ rdy, of i WDone] by (auto simp: p')
      then show ?thesis using A that by (simp add: p')
    qed
    show "\<exists>i < nextIndex p'. taskKey (tasks ! i) = key \<and> partialReports s key \<noteq> None
               \<and> taskReport (llm e) s0 (tasks ! i) = partialReports s key"
      if "partialReports s key \<noteq> partialReports s0 key" for key
      using B that by (simp add: p')
    show "\<exists>u \<in> set (emitted (pworld p')). started (tasks ! i) u" if "i < nextIndex p'" for i
      using G that by (simp add: p')
  qed
  then show ?thesis by (simp add: p'_def)
qed

lemma taskReport_partialReports:
  assumes "s\<lparr>partialReports := pr\<rparr> = s0"
  shows "taskReport service s t = taskReport service s0 t"
  by (simp add: taskReport_def signalInput_partialReports[OF assms])

lemma poolInv_claim:
  assumes inv: "poolInv e sid tasks s0 p"
    and k: "k < length (workers p)" and rdy: "workers p ! k = WReady"
    and more: "nextIndex p < length tasks"
    and st: "startTask e sid (tasks ! nextIndex p) (nextIndex p) (pworld p) = (x, w1)"
  shows "poolInv e sid tasks s0
           (p\<lparr>nextIndex := nextIndex p + 1, workers := (workers p)[k := x], pworld := w1\<rparr>)"
proof -
  define c where "c = nextIndex p"
  define t where "t = tasks ! c"
  define p' where "p' = p\<lparr>nextIndex := nextIndex p + 1, workers := (workers p)[k := x], pworld := w1\<rparr>"
  have p': "nextIndex p' = Suc c" "workers p' = (workers p)[k := x]" "pworld p' = w1"
    by (simp_all add: p'_def c_def)
  from inv obtain s where
    l: "live e (pworld p) sid s" and
    cs: "s\<lparr>partialReports := partialReports s0\<rparr> = s0" and
    n: "nextIndex p \<le> length tasks" and
    ne: "tasks \<noteq> [] \<longrightarrow> workers p \<noteq> []" and
    dn: "WDone \<in> set (workers p) \<longrightarrow> nextIndex p = length tasks" and
    aw: "\<forall>k i input. k < length (workers p) \<and> workers p ! k = WAwait i input \<longrightarrow>
            i < nextIndex p \<and> signalInput (llm e) s0 (tasks ! i) = Inr input" and
    A: "\<forall>i r. i < nextIndex p \<and> \<not> awaits (workers p) i
            \<and> taskReport (llm e) s0 (tasks ! i) = Some r \<longrightarrow>
            partialReports s (taskKey (tasks ! i)) = Some r" and
    B: "\<forall>key. partialReports s key \<noteq> partialReports s0 key \<longrightarrow>
            (\<exists>i < nextIndex p. taskKey (tasks ! i) = key \<and> partialReports s key \<noteq> None
               \<and> taskReport (llm e) s0 (tasks ! i) = partialReports s key)" and
    G: "\<forall>i < nextIndex p. \<exists>u \<in> set (emitted (pworld p)). started (tasks ! i) u"
    by (rule poolInvE)
  have si: "signalInput (llm e) s t = signalInput (llm e) s0 t"
    by (rule signalInput_partialReports[OF cs])
  from st startTask_live[OF l, of t c] have
    x: "x = (case signalInput (llm e) s0 t of Inl err \<Rightarrow> WReady | Inr input \<Rightarrow> WAwait c input)" and
    w1: "w1 = emitSignalStart (fst t) (sig_id (snd t)) (sig_name (snd t)) (pworld p)"
    by (simp_all add: t_def c_def si[unfolded t_def c_def])
  have xnd: "x \<noteq> WDone" by (simp add: x split: sum.splits)
  have nodone: "WDone \<notin> set (workers p)" using dn more by auto
  have "poolInv e sid tasks s0 p'"
  proof (rule poolInvI[where s = s])
    show "live e (pworld p') sid s" using l by (simp add: p' w1)
    show "s\<lparr>partialReports := partialReports s0\<rparr> = s0" by (rule cs)
    show "nextIndex p' \<le> length tasks" using more by (simp add: p' c_def)
    show "workers p' \<noteq> []" if "tasks \<noteq> []" using that ne by (simp add: p')
    show "nextIndex p' = length tasks" if "WDone \<in> set (workers p')"
    proof -
      from that have "WDone \<in> set (workers p) \<or> WDone = x"
        using set_update_subset_insert[of "workers p" k x] by (auto simp: p')
      then show ?thesis using nodone xnd by auto
    qed
    show "i < nextIndex p' \<and> signalInput (llm e) s0 (tasks ! i) = Inr input"
      if "j < length (workers p')" "workers p' ! j = WAwait i input" for j i input
    proof (cases "j = k")
      case True
      then have "x = WAwait i input" using that k by (simp add: p')
      then show ?thesis using x by (auto simp: p' t_def split: sum.splits)
    next
      case False
      then have "i < nextIndex p \<and> signalInput (llm e) s0 (tasks ! i) = Inr input"
        using that aw by (simp add: p')
      then show ?thesis by (simp add: p' c_def)
    qed
    show "partialReports s (taskKey (tasks ! i)) = Some r"
      if "i < nextIndex p'" "\<not> awaits (workers p') i" "taskReport (llm e) s0 (tasks ! i) = Some r" for i r
    proof (cases "i = c")
      case True
      have "x \<noteq> WAwait c input" for input
        using that(2) awaits_claimed[OF k, of c input] True by (auto simp: p')
      then have "\<exists>err. signalInput (llm e) s0 t = Inl err"
        using x by (cases "signalInput (llm e) s0 t") auto
      then have "taskReport (llm e) s0 (tasks ! i) = None"
        using True by (auto simp: taskReport_def t_def)
      then show ?thesis using that(3) by simp
    next
      case False
      then have i: "i < nextIndex p" using that(1) by (simp add: p' c_def)
      have "\<not> awaits (workers p) i"
        using that(2) awaits_after_claim[OF _ rdy, of i x] by (auto simp: p')
      then show ?thesis using A i that(3) by simp
    qed
    show "\<exists>i < nextIndex p'. taskKey (tasks ! i) = key \<and> partialReports s key \<noteq> None
               \<and> taskReport (llm e) s0 (tasks ! i) = partialReports s key"
      if "partialReports s key \<noteq> partialReports s0 key" for key
    proof -
      from B that obtain i where "i < nextIndex p" "taskKey (tasks ! i) = key
               \<and> partialReports s key \<noteq> None
               \<and> taskReport (llm e) s0 (tasks ! i) = partialReports s key" by blast
      then show ?thesis by (auto simp: p' c_def intro!: exI[of _ i])
    qed
    show "\<exists>u \<in> set (emitted (pworld p')). started (tasks ! i) u" if "i < nextIndex p'" for i
    proof (cases "i = c")
      case True
      then show ?thesis using started_emitSignalStart[of t "pworld p"] by (simp add: p' w1 t_def)
    next
      case False
      then have "i < nextIndex p" using that by (simp add: p' c_def)
      then obtain u where "u \<in> set (emitted (pworld p))" "started (tasks ! i) u" using G by blast
      then show ?thesis
        using emitted_grows(1)[of "pworld p" "fst t" "sig_id (snd t)" "sig_name (snd t)"]
        unfolding p' w1 by blast
    qed
  qed
  then show ?thesis by (simp add: p'_def)
qed

lemma finishTask_live:
  assumes "live e w sid s" and "signalInput (llm e) s0 t = Inr input"
  shows "live e (finishTask e sid t input w) sid
           (case taskReport (llm e) s0 t of
              None \<Rightarrow> s
            | Some r \<Rightarrow> s\<lparr>partialReports := (partialReports s)(taskKey t \<mapsto> r)\<rparr>)"
proof (cases "analyzeSignal (llm e) input")
  case (Inl err)
  then show ?thesis using assms by (simp add: finishTask_def taskReport_def)
next
  case (Inr result)
  then show ?thesis using live_finishTask[OF assms(1) Inr] assms(2) by (simp add: taskReport_def)
qed

lemma distinct_keys:
  assumes "distinct (map taskKey tasks)" "i < length tasks" "j < length tasks" "i \<noteq> j"
  shows "taskKey (tasks ! i) \<noteq> taskKey (tasks ! j)"
  using assms nth_eq_iff_index_eq[of "map taskKey tasks" i j] by simp

lemma poolInv_finish:
  assumes inv: "poolInv e sid tasks s0 p"
    and dist: "distinct (map taskKey tasks)"
    and k: "k < length (workers p)" and wk: "workers p ! k = WAwait i input"
  shows "poolInv e sid tasks s0
           (p\<lparr>workers := (workers p)[k := WReady],
              pworld := finishTask e sid (tasks ! i) input (pworld p)\<rparr>)"
proof -
  define t where "t = tasks ! i"
  define w1 where "w1 = finishTask e sid t input (pworld p)"
  define p' where "p' = p\<lparr>workers := (workers p)[k := WReady], pworld := w1\<rparr>"
  have p': "nextIndex p' = nextIndex p" "workers p' = (workers p)[k := WReady]" "pworld p' = w1"
    by (simp_all add: p'_def)
  from inv obtain s where
    l: "live e (pworld p) sid s" and
    cs: "s\<lparr>partialReports := partialReports s0\<rparr> = s0" and
    n: "nextIndex p \<le> length tasks" and
    ne: "tasks \<noteq> [] \<longrightarrow> workers p \<noteq> []" and
    dn: "WDone \<in> set (workers p) \<longrightarrow> nextIndex p = length tasks" and
    aw: "\<forall>k i input. k < length (workers p) \<and> workers p ! k = WAwait i input \<longrightarrow>
            i < nextIndex p \<and> signalInput (llm e) s0 (tasks ! i) = Inr input" and
    A: "\<forall>i r. i < nextIndex p \<and> \<not> awaits (workers p) i
            \<and> taskReport (llm e) s0 (tasks ! i) = Some r \<longrightarrow>
            partialReports s (taskKey (tasks ! i)) = Some r" and
    B: "\<forall>key. partialReports s key \<noteq> partialReports s0 key \<longrightarrow>
            (\<exists>i < nextIndex p. taskKey (tasks ! i) = key \<and> partialReports s key \<noteq> None
               \<and> taskReport (llm e) s0 (tasks ! i) = partialReports s key)" and
    G: "\<forall>i < nextIndex p. \<exists>u \<in> set (emitted (pworld p)). started (tasks ! i) u"
    by (rule poolInvE)
  from aw k wk have i: "i < nextIndex p" and si: "signalInput (llm e) s0 t = Inr input"
    by (auto simp: t_def)
  define rep where "rep = taskReport (llm e) s0 t"
  define s' where "s' = (case rep of None \<Rightarrow> s
     | Some r \<Rightarrow> s\<lparr>partialReports := (partialReports s)(taskKey t \<mapsto> r)\<rparr>)"
  have l': "live e w1 sid s'"
    unfolding w1_def s'_def rep_def by (rule finishTask_live[OF l si])
  have other: "partialReports s' key = partialReports s key" if "key \<noteq> taskKey t" for key
    using that by (simp add: s'_def split: option.splits)
  have own: "partialReports s' (taskKey t) = Some r" if "rep = Some r" for r
    using that by (simp add: s'_def)
  have "poolInv e sid tasks s0 p'"
  proof (rule poolInvI[where s = s'])
    show "live e (pworld p') sid s'" using l' by (simp add: p')
    show "s'\<lparr>partialReports := partialReports s0\<rparr> = s0"
      using cs by (simp add: s'_def split: option.splits)
    show "nextIndex p' \<le> length tasks" using n by (simp add: p')
    show "workers p' \<noteq> []" if "tasks \<noteq> []" using that ne by (simp add: p')
    show "nextIndex p' = length tasks" if "WDone \<in> set (workers p')"
    proof -
      from that have "WDone \<in> set (workers p)"
        using set_update_subset_insert[of "workers p" k WReady] by (auto simp: p')
      then show ?thesis using dn by (simp add: p')
    qed
    show "j < nextIndex p' \<and> signalInput (llm e) s0 (tasks ! j) = Inr inp"
      if "m < length (workers p')" "workers p' ! m = WAwait j inp" for m j inp
    proof -
      have "m \<noteq> k" using that k by (auto simp: p')
      then show ?thesis using that aw by (simp add: p')
    qed
    show "partialReports s' (taskKey (tasks ! j)) = Some r"
      if "j < nextIndex p'" "\<not> awaits (workers p') j" "taskReport (llm e) s0 (tasks ! j) = Some r" for j r
    proof (cases "j = i")
      case True
      then show ?thesis using that(3) own[of r] by (simp add: rep_def t_def)
    next
      case False
      have "\<not> awaits (workers p) j"
        using that(2) awaits_after_finish[OF _ wk False, of WReady] by (auto simp: p')
      then have "partialReports s (taskKey (tasks ! j)) = Some r"
        using A that by (simp add: p')
      moreover have "taskKey (tasks ! j) \<noteq> taskKey t"
        unfolding t_def using that(1) i n False by (intro distinct_keys[OF dist]) (simp_all add: p')
      ultimately show ?thesis by (simp add: other)
    qed
    show "\<exists>j < nextIndex p'. taskKey (tasks ! j) = key \<and> partialReports s' key \<noteq> None
               \<and> taskReport (llm e) s0 (tasks ! j) = partialReports s' key"
      if ch: "partialReports s' key \<noteq> partialReports s0 key" for key
    proof (cases "key = taskKey t \<and> rep \<noteq> None")
      case True
      then obtain r where r: "rep = Some r" by auto
      show ?thesis
        using True i own[OF r] r by (intro exI[of _ i]) (simp add: p' t_def rep_def)
    next
      case False
      then have "partialReports s' key = partialReports s key"
        by (auto simp: s'_def split: option.splits)
      then show ?thesis using B ch by (simp add: p')
    qed
    show "\<exists>u \<in> set (emitted (pworld p')). started (tasks ! j) u" if "j < nextIndex p'" for j
    proof -
      from that obtain u where "u \<in> set (emitted (pworld p))" "started (tasks ! j) u"
        using G by (auto simp: p')
      then show ?thesis
        using emitted_grows(3)[of "pworld p" e sid t input] unfolding p' w1_def by blast
    qed
  qed
  then show ?thesis by (simp add: p'_def w1_def t_def)
qed

lemma poolInv_stepBody:
  assumes inv: "poolInv e sid tasks s0 p"
    and dist: "distinct (map taskKey tasks)"
    and k: "k < length (workers p)"
  shows "poolInv e sid tasks s0 (stepBody e sid tasks k p)"
proof (cases "workers p ! k")
  case WDone
  then show ?thesis using inv by (simp add: stepBody_def)
next
  case WReady
  show ?thesis
  proof (cases "nextIndex p < length tasks")
    case True
    obtain x w1 where st: "startTask e sid (tasks ! nextIndex p) (nextIndex p) (pworld p) = (x, w1)"
      by (cases "startTask e sid (tasks ! nextIndex p) (nextIndex p) (pworld p)")
    from poolInv_claim[OF inv k WReady True st] show ?thesis
      using WReady True st by (simp add: stepBody_def)
  next
    case False
    from poolInv_leave[OF inv k WReady False] show ?thesis
      using WReady False by (simp add: stepBody_def)
  qed
next
  case (WAwait i input)
  from poolInv_finish[OF inv dist k WAwait] show ?thesis
    using WAwait by (simp add: stepBody_def)
qed

lemma poolInv_resume:
  "poolInv e sid tasks s0 p \<Longrightarrow> poolInv e sid tasks s0 (p\<lparr>pworld := resume (pworld p)\<rparr>)"
  unfolding poolInv_def by simp

lemma poolInv_init:
  assumes "live e w sid s0"
  shows "poolInv e sid tasks s0
           \<lparr>nextIndex = 0, workers = replicate (min signalConcurrency (length tasks)) WReady,
            pworld = w\<rparr>"
  by (rule poolInvI[where s = s0]) (use assms in \<open>auto simp: signalConcurrency_def\<close>)

lemma not_awaits_done: "\<forall>x \<in> set ws. x = WDone \<Longrightarrow> \<not> awaits ws i"
  unfolding awaits_def by (metis nth_mem wstate.distinct(5))

lemma runPool_live:
  assumes l: "live e w sid s0" and dist: "distinct (map taskKey tasks)"
  shows "\<exists>s. live e (runPool e sid tasks schedule w) sid s
      \<and> s\<lparr>partialReports := partialReports s0\<rparr> = s0
      \<and> (\<forall>i < length tasks. \<forall>r. taskReport (llm e) s0 (tasks ! i) = Some r \<longrightarrow>
            partialReports s (taskKey (tasks ! i)) = Some r)
      \<and> (\<forall>key. partialReports s key \<noteq> partialReports s0 key \<longrightarrow>
            (\<exists>i < length tasks. taskKey (tasks ! i) = key \<and> partialReports s key \<noteq> None
               \<and> taskReport (llm e) s0 (tasks ! i) = partialReports s key))
      \<and> (\<forall>i < length tasks. \<exists>u \<in> set (emitted (runPool e sid tasks schedule w)).
            started (tasks ! i) u)"
proof -
  have "\<exists>p. runPool e sid tasks schedule w = pworld p \<and> poolInv e sid tasks s0 p
          \<and> (\<forall>x \<in> set (workers p). x = WDone)"
    by (rule runPool_keeps[where P = "poolInv e sid tasks s0"])
       (auto intro: poolInv_stepBody dist poolInv_resume poolInv_init l)
  then obtain p where rp: "runPool e sid tasks schedule w = pworld p"
    and inv: "poolInv e sid tasks s0 p" and alld: "\<forall>x \<in> set (workers p). x = WDone"
    by blast
  from inv obtain s where
    l: "live e (pworld p) sid s" and
    cs: "s\<lparr>partialReports := partialReports s0\<rparr> = s0" and
    n: "nextIndex p \<le> length tasks" and
    ne: "tasks \<noteq> [] \<longrightarrow> workers p \<noteq> []" and
    dn: "WDone \<in> set (workers p) \<longrightarrow> nextIndex p = length tasks" and
    A: "\<forall>i r. i < nextIndex p \<and> \<not> awaits (workers p) i
            \<and> taskReport (llm e) s0 (tasks ! i) = Some r \<longrightarrow>
            partialReports s (taskKey (tasks ! i)) = Some r" and
    B: "\<forall>key. partialReports s key \<noteq> partialReports s0 key \<longrightarrow>
            (\<exists>i < nextIndex p. taskKey (tasks ! i) = key \<and> partialReports s key \<noteq> None
               \<and> taskReport (llm e) s0 (tasks ! i) = partialReports s key)" and
    G: "\<forall>i < nextIndex p. \<exists>u \<in> set (emitted (pworld p)). started (tasks ! i) u"
    by (rule poolInvE)
  have full: "nextIndex p = length tasks"
  proof (cases "tasks = []")
    case True
    then show ?thesis using n by simp
  next
    case False
    then obtain x where "x \<in> set (workers p)" using ne by (cases "workers p") auto
    then have "WDone \<in> set (workers p)" using alld by auto
    then show ?thesis using dn by simp
  qed
  have na: "\<not> awaits (workers p) i" for i by (rule not_awaits_done[OF alld])
  show ?thesis
    unfolding rp
    apply (rule exI[of _ s])
    using l cs A B G na unfolding full by blast
qed

lemma distinct_getAllSignals: "distinct (map taskKey getAllSignals)"
  by (simp add: getAllSignals_def allSignals_def REPORT_BLUEPRINT_def taskKey_def)

lemma generateSignals_live:
  assumes l: "live e w sid s0" and fx: "fixture (collectedData s0) \<noteq> None"
  shows "generateSignals e schedule sid w = (Inr (), runPool e sid getAllSignals schedule w)"
  using fx by (auto simp: generateSignals_def live_storeGet[OF l])

lemma in_set_nth: "t \<in> set xs \<Longrightarrow> \<exists>i < length xs. xs ! i = t"
  by (auto simp: in_set_conv_nth)

text \<open>What stage 2 leaves behind, for every order of resumption.\<close>

lemma stage2_result:
  assumes l: "live e w sid s0" and fx: "fixture (collectedData s0) \<noteq> None"
    and g: "generateSignals e schedule sid w = (r, w')"
  shows "r = Inr () \<and> (\<exists>s. live e w' sid s
      \<and> s\<lparr>partialReports := partialReports s0\<rparr> = s0
      \<and> (\<forall>t \<in> set getAllSignals. \<forall>rep. taskReport (llm e) s0 t = Some rep \<longrightarrow>
            partialReports s (taskKey t) = Some rep)
      \<and> (\<forall>key. key \<notin> taskKey ` {t \<in> set getAllSignals. taskReport (llm e) s0 t \<noteq> None} \<longrightarrow>
            partialReports s key = partialReports s0 key)
      \<and> (\<forall>t \<in> set getAllSignals. \<exists>u \<in> set (emitted w'). started t u))"
proof -
  from g generateSignals_live[OF l fx, of schedule]
  have r: "r = Inr ()" and w': "w' = runPool e sid getAllSignals schedule w" by simp_all
  from runPool_live[OF l distinct_getAllSignals, of schedule] obtain s where
    ls: "live e w' sid s" and
    cs: "s\<lparr>partialReports := partialReports s0\<rparr> = s0" and
    A: "\<forall>i < length getAllSignals. \<forall>r. taskReport (llm e) s0 (getAllSignals ! i) = Some r \<longrightarrow>
            partialReports s (taskKey (getAllSignals ! i)) = Some r" and
    B: "\<forall>key. partialReports s key \<noteq> partialReports s0 key \<longrightarrow>
            (\<exists>i < length getAllSignals. taskKey (getAllSignals ! i) = key
               \<and> partialReports s key \<noteq> None
               \<and> taskReport (llm e) s0 (getAllSignals ! i) = partialReports s key)" and
    G: "\<forall>i < length getAllSignals. \<exists>u \<in> set (emitted w'). started (getAllSignals ! i) u"
    unfolding w' by blast
  have a: "partialReports s (taskKey t) = Some rep"
    if "t \<in> set getAllSignals" "taskReport (llm e) s0 t = Some rep" for t rep
    using in_set_nth[OF that(1)] A that(2) by blast
  have b: "partialReports s key = partialReports s0 key"
    if "key \<notin> taskKey ` {t \<in> set getAllSignals. taskReport (llm e) s0 t \<noteq> None}" for key
  proof (rule ccontr)
    assume ch: "partialReports s key \<noteq> partialReports s0 key"
    with B obtain i where i: "i < length getAllSignals" "taskKey (getAllSignals ! i) = key"
      "partialReports s key \<noteq> None"
      "taskReport (llm e) s0 (getAllSignals ! i) = partialReports s key" by blast
    then have "getAllSignals ! i \<in> {t \<in> set getAllSignals. taskReport (llm e) s0 t \<noteq> None}"
      by simp
    then show False using that i(2) by blast
  qed
  have c: "\<exists>u \<in> set (emitted w'). started t u" if "t \<in> set getAllSignals" for t
    using in_set_nth[OF that] G by blast
  show ?thesis
    using r ls cs a b c by blast
qed

subsection \<open>Progress values\<close>

lemma signalProgress_mono:
  "c \<le> c' \<Longrightarrow> signalProgress (t\<lparr>completedSignals := c\<rparr>) \<le> signalProgress (t\<lparr>completedSignals := c'\<rparr>)"
  by (simp add: signalProgress_def floor_mono divide_right_mono mult_right_mono)

lemma categoryProgress_mono:
  "c \<le> c' \<Longrightarrow> categoryProgress (t\<lparr>completedCategories := c\<rparr>) \<le> categoryProgress (t\<lparr>completedCategories := c'\<rparr>)"
  by (simp add: categoryProgress_def floor_mono divide_right_mono mult_right_mono)

lemma ratio_le_one: "c \<le> n \<Longrightarrow> real c / real n \<le> 1"
  by (cases "n = 0") (simp_all add: divide_le_eq_1)

lemma signalProgress_range:
  "20 \<le> signalProgress t" "completedSignals t \<le> totalSignals t \<Longrightarrow> signalProgress t \<le> 70"
proof -
  show "20 \<le> signalProgress t" by (simp add: signalProgress_def)
  assume "completedSignals t \<le> totalSignals t"
  then have "real (completedSignals t) / real (totalSignals t) * 50 \<le> 1 * 50"
    by (intro mult_right_mono ratio_le_one) simp_all
  then have "\<lfloor>real (completedSignals t) / real (totalSignals t) * 50\<rfloor> \<le> 50"
    by (simp add: floor_le_iff)
  then show "signalProgress t \<le> 70" by (simp add: signalProgress_def)
qed

lemma categoryProgress_range:
  "70 \<le> categoryProgress t" "completedCategories t \<le> totalCategories t \<Longrightarrow> categoryProgress t \<le> 90"
proof -
  show "70 \<le> categoryProgress t" by (simp add: categoryProgress_def)
  assume "completedCategories t \<le> totalCategories t"
  then have "real (completedCategories t) / real (totalCategories t) * 20 \<le> 1 * 20"
    by (intro mult_right_mono ratio_le_one) simp_all
  then have "\<lfloor>real (completedCategories t) / real (totalCategories t) * 20\<rfloor> \<le> 20"
    by (simp add: floor_le_iff)
  then show "categoryProgress t \<le> 90" by (simp add: categoryProgress_def)
qed

subsection \<open>The log of progress updates\<close>

lemma bounded_refl: "bounded (emitted w) b w"
  by (simp add: bounded_def)

lemma bounded_mono: "bounded base b w \<Longrightarrow> b \<le> b' \<Longrightarrow> bounded base b' w"
  unfolding bounded_def by fastforce

lemma bounded_emit:
  assumes "bounded base b w" and "emitted w' = emitted w @ [u]" and "b \<le> progress u"
  shows "bounded base (progress u) w'"
proof -
  from assms(1) obtain es where es: "emitted w = base @ es" "sorted (map progress es)"
    "\<forall>x \<in> set es. progress x \<le> b" unfolding bounded_def by blast
  have "sorted (map progress (es @ [u]))"
    using es(2,3) assms(3) by (auto simp: sorted_append)
  moreover have "\<forall>x \<in> set (es @ [u]). progress x \<le> progress u"
    using es(3) assms(3) by auto
  moreover have "emitted w' = base @ (es @ [u])" using es(1) assms(2) by simp
  ultimately show ?thesis unfolding bounded_def by blast
qed

lemma bounded_same:
  "bounded base b w \<Longrightarrow> emitted w' = emitted w \<Longrightarrow> bounded base b w'"
  by (simp add: bounded_def)

lemma quiet_refl: "quiet (writes w) w"
  by (simp add: quiet_def)

lemma quiet_same: "quiet base w \<Longrightarrow> writes w' = writes w \<Longrightarrow> quiet base w'"
  by (simp add: quiet_def)

lemma quiet_write:
  assumes "quiet base w" and "writes w' = writes w @ [u]" and "u_status u = None"
  shows "quiet base w'"
proof -
  from assms(1) obtain us where "writes w = base @ us" "\<forall>x \<in> set us. u_status x = None"
    unfolding quiet_def by blast
  then have "writes w' = base @ (us @ [u]) \<and> (\<forall>x \<in> set (us @ [u]). u_status x = None)"
    using assms(2,3) by simp
  then show ?thesis unfolding quiet_def by blast
qed

subsection \<open>Stage 1 on any world\<close>

lemma stage1Trace_emit:
  "stage1Trace eb wb t w \<Longrightarrow> stage1Trace eb wb t (emitDataCollection msg w)"
  unfolding stage1Trace_def emitDataCollection_def
  using bounded_emit[of eb 10 w "callback \<lparr>stage = data_collection, progress = 10, message = msg,
      currentTask = Some msg, details = None\<rparr> w"
      "\<lparr>stage = data_collection, progress = 10, message = msg, currentTask = Some msg, details = None\<rparr>"]
  by (auto intro: quiet_same)

lemma stage1Trace_resume: "stage1Trace eb wb t w \<Longrightarrow> stage1Trace eb wb t (resume w)"
  unfolding stage1Trace_def by (auto intro: quiet_same bounded_same)

lemma stage1Trace_update:
  "stage1Trace eb wb t w \<Longrightarrow> u_status u = None \<Longrightarrow> stage1Trace eb wb t (storeUpdate e sid u w)"
  unfolding stage1Trace_def by (auto intro: quiet_write bounded_same)

lemma stage1Trace_fragment:
  "stage1Trace eb wb t w \<Longrightarrow> stage1Trace eb wb t (storeFragment e sid result f w)"
  by (auto simp: storeFragment_def noUpdate_def intro!: stage1Trace_update split: option.splits)

lemma collectData_trace:
  assumes "bounded eb b w" and "b \<le> 10" and "quiet wb w"
  shows "stage1Trace eb wb (tracker w) (snd (collectData e sid session w))"
proof -
  have "stage1Trace eb wb (tracker w) w"
    using assms bounded_mono[of eb b w 10] by (simp add: stage1Trace_def)
  then show ?thesis
    unfolding collectData_def Let_def
    by (auto simp: noUpdate_def split: option.splits list.splits
          intro!: stage1Trace_emit stage1Trace_resume stage1Trace_update stage1Trace_fragment)
qed

subsection \<open>Stage 2 on any world\<close>

lemma startTask_effect:
  "\<exists>u. emitted (snd (startTask e sid t c w)) = emitted w @ [u]
        \<and> progress u = signalProgress (tracker w)"
  "tracker (snd (startTask e sid t c w)) = tracker w"
  "writes (snd (startTask e sid t c w)) = writes w"
  "fst (startTask e sid t c w) = WReady \<or> (\<exists>input. fst (startTask e sid t c w) = WAwait c input)"
proof -
  let ?w1 = "emitSignalStart (fst t) (sig_id (snd t)) (sig_name (snd t)) w"
  obtain r w2 where g: "storeGet e sid ?w1 = (r, w2)" by (cases "storeGet e sid ?w1")
  then have w2: "w2 = snd (storeGet e sid ?w1)" by simp
  have s: "snd (startTask e sid t c w) = w2"
    using g by (simp add: startTask_def Let_def split: option.splits sum.splits)
  show "\<exists>u. emitted (snd (startTask e sid t c w)) = emitted w @ [u]
        \<and> progress u = signalProgress (tracker w)"
    unfolding s w2 by (simp add: emitSignalStart_def)
  show "tracker (snd (startTask e sid t c w)) = tracker w"
    unfolding s w2 by (simp add: emitSignalStart_def)
  show "writes (snd (startTask e sid t c w)) = writes w"
    unfolding s w2 by (simp add: emitSignalStart_def)
  show "fst (startTask e sid t c w) = WReady \<or> (\<exists>input. fst (startTask e sid t c w) = WAwait c input)"
    using g by (simp add: startTask_def Let_def split: option.splits sum.splits)
qed

lemma finishTask_effect:
  "finishTask e sid t input w = w
   \<or> (\<exists>u upd. emitted (finishTask e sid t input w) = emitted w @ [u]
        \<and> tracker (finishTask e sid t input w)
            = (tracker w)\<lparr>completedSignals := completedSignals (tracker w) + 1\<rparr>
        \<and> progress u = signalProgress (tracker (finishTask e sid t input w))
        \<and> writes (finishTask e sid t input w) = writes w @ [upd]
        \<and> u_status upd = None)"
  by (cases "analyzeSignal (llm e) input")
     (simp_all add: finishTask_def emitSignalComplete_def Let_def noUpdate_def)

lemma inFlight_update:
  "k < length ws \<Longrightarrow> inFlight (ws[k := x]) + flying (ws ! k) = inFlight ws + flying x"
  unfolding inFlight_def
  by (induction ws arbitrary: k) (auto split: nat.splits)

lemma poolTraceI:
  assumes "bounded eb (signalProgress (tracker (pworld p))) (pworld p)"
    and "quiet wb (pworld p)"
    and "tracker (pworld p) = t0\<lparr>completedSignals := c\<rparr>"
    and "c + inFlight (workers p) \<le> nextIndex p"
    and "nextIndex p \<le> n"
  shows "poolTrace eb wb t0 n p"
  unfolding poolTrace_def using assms by blast

lemma poolTrace_stepBody:
  assumes inv: "poolTrace eb wb t0 (length tasks) p" and k: "k < length (workers p)"
  shows "poolTrace eb wb t0 (length tasks) (stepBody e sid tasks k p)"
proof -
  from inv obtain c where
    b: "bounded eb (signalProgress (tracker (pworld p))) (pworld p)" and
    q: "quiet wb (pworld p)" and
    t: "tracker (pworld p) = t0\<lparr>completedSignals := c\<rparr>" and
    cnt: "c + inFlight (workers p) \<le> nextIndex p" and
    n: "nextIndex p \<le> length tasks"
    unfolding poolTrace_def by blast
  show ?thesis
  proof (cases "workers p ! k")
    case WDone
    then show ?thesis using inv by (simp add: stepBody_def)
  next
    case WReady
    show ?thesis
    proof (cases "nextIndex p < length tasks")
      case False
      have "inFlight ((workers p)[k := WDone]) = inFlight (workers p)"
        using inFlight_update[OF k, of WDone] WReady by (simp add: flying_def)
      moreover have "stepBody e sid tasks k p = p\<lparr>workers := (workers p)[k := WDone]\<rparr>"
        using WReady False by (simp add: stepBody_def)
      ultimately show ?thesis
        using b q t cnt n by (intro poolTraceI[where c = c]) simp_all
    next
      case True
      define st where "st = startTask e sid (tasks ! nextIndex p) (nextIndex p) (pworld p)"
      have eq: "stepBody e sid tasks k p
          = p\<lparr>nextIndex := nextIndex p + 1, workers := (workers p)[k := fst st], pworld := snd st\<rparr>"
        using WReady True by (simp add: stepBody_def st_def Let_def split: prod.splits)
      from startTask_effect[of e sid "tasks ! nextIndex p" "nextIndex p" "pworld p"]
      obtain u where
        em: "emitted (snd st) = emitted (pworld p) @ [u]" and
        pu: "progress u = signalProgress (tracker (pworld p))" and
        tr: "tracker (snd st) = tracker (pworld p)" and
        wr: "writes (snd st) = writes (pworld p)" and
        fs: "fst st = WReady \<or> (\<exists>input. fst st = WAwait (nextIndex p) input)"
        unfolding st_def by blast
      have "flying (fst st) \<le> 1" using fs by (auto simp: flying_def)
      then have fl: "inFlight ((workers p)[k := fst st]) \<le> inFlight (workers p) + 1"
        using inFlight_update[OF k, of "fst st"] WReady by (simp add: flying_def)
      have "bounded eb (progress u) (snd st)"
        using bounded_emit[OF b em] pu by simp
      then have "bounded eb (signalProgress (tracker (snd st))) (snd st)"
        by (simp add: pu tr)
      moreover have "quiet wb (snd st)" using q wr by (rule quiet_same)
      ultimately show ?thesis
        unfolding eq using t tr cnt fl True by (intro poolTraceI[where c = c]) simp_all
    qed
  next
    case (WAwait i input)
    define w1 where "w1 = finishTask e sid (tasks ! i) input (pworld p)"
    have eq: "stepBody e sid tasks k p = p\<lparr>workers := (workers p)[k := WReady], pworld := w1\<rparr>"
      using WAwait by (simp add: stepBody_def w1_def)
    have fl: "inFlight ((workers p)[k := WReady]) + 1 = inFlight (workers p)"
      using inFlight_update[OF k, of WReady] WAwait by (simp add: flying_def)
    from finishTask_effect[of e sid "tasks ! i" input "pworld p"]
    consider (same) "w1 = pworld p"
      | (wrote) u upd where "emitted w1 = emitted (pworld p) @ [u]"
          "tracker w1 = (tracker (pworld p))\<lparr>completedSignals := completedSignals (tracker (pworld p)) + 1\<rparr>"
          "progress u = signalProgress (tracker w1)" "writes w1 = writes (pworld p) @ [upd]"
          "u_status upd = None"
      unfolding w1_def by blast
    then show ?thesis
    proof cases
      case same
      then show ?thesis
        unfolding eq using b q t cnt n fl by (intro poolTraceI[where c = c]) simp_all
    next
      case wrote
      have t1: "tracker w1 = t0\<lparr>completedSignals := c + 1\<rparr>" using wrote(2) t by simp
      have "signalProgress (tracker (pworld p)) \<le> signalProgress (tracker w1)"
        unfolding t t1 by (rule signalProgress_mono) simp
      then have "bounded eb (progress u) w1"
        using bounded_emit[OF b wrote(1)] wrote(3) by simp
      then have "bounded eb (signalProgress (tracker w1)) w1" by (simp add: wrote(3))
      moreover have "quiet wb w1" using q wrote(4,5) by (rule quiet_write)
      ultimately show ?thesis
        unfolding eq using t1 cnt n fl by (intro poolTraceI[where c = "c + 1"]) simp_all
    qed
  qed
qed

lemma poolTrace_resume:
  assumes "poolTrace eb wb t0 n p"
  shows "poolTrace eb wb t0 n (p\<lparr>pworld := resume (pworld p)\<rparr>)"
proof -
  from assms obtain c where
    b: "bounded eb (signalProgress (tracker (pworld p))) (pworld p)" and
    q: "quiet wb (pworld p)" and
    t: "tracker (pworld p) = t0\<lparr>completedSignals := c\<rparr>" and
    cnt: "c + inFlight (workers p) \<le> nextIndex p" and
    n: "nextIndex p \<le> n"
    unfolding poolTrace_def by blast
  have "bounded eb (signalProgress (tracker (pworld p))) (resume (pworld p))"
    using b by (rule bounded_same) simp
  moreover have "quiet wb (resume (pworld p))" using q by (rule quiet_same) simp
  ultimately show ?thesis
    using t cnt n by (intro poolTraceI[where c = c]) simp_all
qed

lemma inFlight_replicate [simp]: "inFlight (replicate m WReady) = 0"
  by (induction m) (simp_all add: inFlight_def flying_def)

lemma runPool_trace:
  assumes b: "bounded eb b w" and b20: "b \<le> 20" and q: "quiet wb w"
    and c0: "completedSignals (tracker w) = 0" and tot: "totalSignals (tracker w) = length tasks"
  shows "bounded eb 70 (runPool e sid tasks schedule w) \<and> quiet wb (runPool e sid tasks schedule w)
       \<and> (\<exists>c. tracker (runPool e sid tasks schedule w) = (tracker w)\<lparr>completedSignals := c\<rparr>)"
proof -
  have init: "poolTrace eb wb (tracker w) (length tasks)
      \<lparr>nextIndex = 0, workers = replicate (min signalConcurrency (length tasks)) WReady, pworld = w\<rparr>"
  proof (rule poolTraceI[where c = 0])
    show "bounded eb (signalProgress (tracker (pworld \<lparr>nextIndex = 0,
        workers = replicate (min signalConcurrency (length tasks)) WReady, pworld = w\<rparr>)))
        (pworld \<lparr>nextIndex = 0,
        workers = replicate (min signalConcurrency (length tasks)) WReady, pworld = w\<rparr>)"
      using bounded_mono[OF b, of "signalProgress (tracker w)"] b20
        signalProgress_range(1)[of "tracker w"] by simp
    show "quiet wb (pworld \<lparr>nextIndex = 0,
        workers = replicate (min signalConcurrency (length tasks)) WReady, pworld = w\<rparr>)"
      using q by simp
    show "tracker (pworld \<lparr>nextIndex = 0,
        workers = replicate (min signalConcurrency (length tasks)) WReady, pworld = w\<rparr>)
        = (tracker w)\<lparr>completedSignals := 0\<rparr>"
      using c0 by simp
  qed simp_all
  have "\<exists>p. runPool e sid tasks schedule w = pworld p \<and> poolTrace eb wb (tracker w) (length tasks) p
          \<and> (\<forall>x \<in> set (workers p). x = WDone)"
  proof (rule runPool_keeps[where P = "poolTrace eb wb (tracker w) (length tasks)"])
    show "poolTrace eb wb (tracker w) (length tasks) (stepBody e sid tasks k p)"
      if "poolTrace eb wb (tracker w) (length tasks) p" "k < length (workers p)" for p k
      using that by (rule poolTrace_stepBody)
    show "poolTrace eb wb (tracker w) (length tasks) (p\<lparr>pworld := resume (pworld p)\<rparr>)"
      if "poolTrace eb wb (tracker w) (length tasks) p" for p
      using that by (rule poolTrace_resume)
    show "poolTrace eb wb (tracker w) (length tasks)
      \<lparr>nextIndex = 0, workers = replicate (min signalConcurrency (length tasks)) WReady, pworld = w\<rparr>"
      by (rule init)
  qed
  then obtain p where rp: "runPool e sid tasks schedule w = pworld p"
    and pt: "poolTrace eb wb (tracker w) (length tasks) p"
    by blast
  from pt obtain c where
    bb: "bounded eb (signalProgress (tracker (pworld p))) (pworld p)"
    and qq: "quiet wb (pworld p)"
    and t: "tracker (pworld p) = (tracker w)\<lparr>completedSignals := c\<rparr>"
    and cnt: "c + inFlight (workers p) \<le> nextIndex p" and n: "nextIndex p \<le> length tasks"
    unfolding poolTrace_def by blast
  have "completedSignals (tracker (pworld p)) = c" "totalSignals (tracker (pworld p)) = length tasks"
    using tot by (simp_all add: t)
  then have "completedSignals (tracker (pworld p)) \<le> totalSignals (tracker (pworld p))"
    using cnt n by linarith
  then have "signalProgress (tracker (pworld p)) \<le> 70" by (rule signalProgress_range(2))
  then have "bounded eb 70 (pworld p)" using bb by (intro bounded_mono[of eb _ "pworld p" 70])
  then show ?thesis unfolding rp using qq t by blast
qed

lemma generateSignals_trace:
  assumes b: "bounded eb b w" and b20: "b \<le> 20" and q: "quiet wb w"
    and c0: "completedSignals (tracker w) = 0"
    and tot: "totalSignals (tracker w) = length getAllSignals"
  shows "bounded eb 70 (snd (generateSignals e schedule sid w))
       \<and> quiet wb (snd (generateSignals e schedule sid w))
       \<and> (\<exists>c. tracker (snd (generateSignals e schedule sid w)) = (tracker w)\<lparr>completedSignals := c\<rparr>)"
proof -
  obtain r w1 where g: "storeGet e sid w = (r, w1)" by (cases "storeGet e sid w")
  then have w1: "w1 = snd (storeGet e sid w)" by simp
  have b1: "bounded eb b w1" using b unfolding w1 by (rule bounded_same) simp
  have q1: "quiet wb w1" using q unfolding w1 by (rule quiet_same) simp
  have t1: "tracker w1 = tracker w" unfolding w1 by simp
  have tz: "tracker w1 = (tracker w)\<lparr>completedSignals := 0\<rparr>" using t1 c0 by simp
  have b70: "bounded eb 70 w1" using bounded_mono[OF b1, of 70] b20 by simp
  have same: "bounded eb 70 w1 \<and> quiet wb w1 \<and> (\<exists>c. tracker w1 = (tracker w)\<lparr>completedSignals := c\<rparr>)"
    by (intro conjI exI[of _ 0] b70 q1 tz)
  have run: "bounded eb 70 (runPool e sid getAllSignals schedule w1)
       \<and> quiet wb (runPool e sid getAllSignals schedule w1)
       \<and> (\<exists>c. tracker (runPool e sid getAllSignals schedule w1) = (tracker w)\<lparr>completedSignals := c\<rparr>)"
  proof -
    have "completedSignals (tracker w1) = 0" "totalSignals (tracker w1) = length getAllSignals"
      using c0 tot by (simp_all add: t1)
    from runPool_trace[OF b1 b20 q1 this, of e sid schedule] show ?thesis by (simp add: t1)
  qed
  show ?thesis
  proof (cases r)
    case None
    then show ?thesis using same by (simp add: generateSignals_def g)
  next
    case (Some updatedSession)
    then show ?thesis using same run
      by (cases "fixture (collectedData updatedSession)") (simp_all add: generateSignals_def g)
  qed
qed

lemma mergeOne_effect:
  "(\<exists>u. emitted (mergeOne e sid us fx cat w) = emitted w @ [u]
        \<and> progress u = categoryProgress (tracker w)
        \<and> tracker (mergeOne e sid us fx cat w) = tracker w
        \<and> writes (mergeOne e sid us fx cat w) = writes w)
   \<or> (\<exists>u v upd. emitted (mergeOne e sid us fx cat w) = emitted w @ [u, v]
        \<and> progress u = categoryProgress (tracker w)
        \<and> tracker (mergeOne e sid us fx cat w)
            = (tracker w)\<lparr>completedCategories := completedCategories (tracker w) + 1\<rparr>
        \<and> progress v = categoryProgress (tracker (mergeOne e sid us fx cat w))
        \<and> writes (mergeOne e sid us fx cat w) = writes w @ [upd]
        \<and> u_status upd = None)"
  by (simp add: mergeOne_def Let_def emitCategoryStart_def emitCategoryComplete_def noUpdate_def
        split: sum.splits)

lemma bounded_emit2:
  assumes "bounded base b w" and "emitted w' = emitted w @ [u, v]"
    and "b \<le> progress u" and "progress u \<le> progress v"
  shows "bounded base (progress v) w'"
proof -
  from assms(1) obtain es where es: "emitted w = base @ es" "sorted (map progress es)"
    "\<forall>x \<in> set es. progress x \<le> b" unfolding bounded_def by blast
  have "sorted (map progress (es @ [u, v]))"
    using es(2,3) assms(3,4) by (auto simp: sorted_append)
  moreover have "\<forall>x \<in> set (es @ [u, v]). progress x \<le> progress v"
    using es(3) assms(3,4) by auto
  moreover have "emitted w' = base @ (es @ [u, v])" using es(1) assms(2) by simp
  ultimately show ?thesis unfolding bounded_def by blast
qed

lemma mergeOne_step:
  assumes b: "bounded eb (categoryProgress (tracker w)) w" and q: "quiet wb w"
    and t: "tracker w = t0\<lparr>completedCategories := c\<rparr>"
  shows "\<exists>c1. c1 \<le> c + 1 \<and> tracker (mergeOne e sid us fx cat w) = t0\<lparr>completedCategories := c1\<rparr>
          \<and> bounded eb (categoryProgress (tracker (mergeOne e sid us fx cat w))) (mergeOne e sid us fx cat w)
          \<and> quiet wb (mergeOne e sid us fx cat w)"
proof -
  define w1 where "w1 = mergeOne e sid us fx cat w"
  have eff: "(\<exists>u. emitted w1 = emitted w @ [u]
        \<and> progress u = categoryProgress (tracker w)
        \<and> tracker w1 = tracker w
        \<and> writes w1 = writes w)
   \<or> (\<exists>u v upd. emitted w1 = emitted w @ [u, v]
        \<and> progress u = categoryProgress (tracker w)
        \<and> tracker w1
            = (tracker w)\<lparr>completedCategories := completedCategories (tracker w) + 1\<rparr>
        \<and> progress v = categoryProgress (tracker w1)
        \<and> writes w1 = writes w @ [upd]
        \<and> u_status upd = None)"
    unfolding w1_def by (rule mergeOne_effect)
  have "\<exists>c1. c1 \<le> c + 1 \<and> tracker w1 = t0\<lparr>completedCategories := c1\<rparr>
          \<and> bounded eb (categoryProgress (tracker w1)) w1 \<and> quiet wb w1"
    using eff
  proof (elim disjE exE conjE)
    fix u
    assume a: "emitted w1 = emitted w @ [u]"
      "progress u = categoryProgress (tracker w)"
      "tracker w1 = tracker w"
      "writes w1 = writes w"
    have "bounded eb (progress u) w1"
      by (rule bounded_emit[OF b a(1)]) (simp add: a(2))
    then have "bounded eb (categoryProgress (tracker w1)) w1" unfolding a(2) a(3) .
    moreover have "quiet wb w1" by (rule quiet_same[OF q a(4)])
    moreover have "tracker w1 = t0\<lparr>completedCategories := c\<rparr>" unfolding a(3) by (rule t)
    ultimately show ?thesis by (intro exI[of _ c]) simp
  next
    fix u v upd
    assume a: "emitted w1 = emitted w @ [u, v]"
      "progress u = categoryProgress (tracker w)"
      "tracker w1
            = (tracker w)\<lparr>completedCategories := completedCategories (tracker w) + 1\<rparr>"
      "progress v = categoryProgress (tracker w1)"
      "writes w1 = writes w @ [upd]"
      "u_status upd = None"
    have cc: "completedCategories (tracker w) = c" unfolding t by simp
    have t1: "tracker w1 = t0\<lparr>completedCategories := c + 1\<rparr>"
      unfolding a(3) cc unfolding t by simp
    have le: "categoryProgress (tracker w) \<le> categoryProgress (tracker w1)"
      unfolding t1 t by (rule categoryProgress_mono) simp
    have "bounded eb (progress v) w1"
      by (rule bounded_emit2[OF b a(1)]) (simp_all only: a(2) a(4) le order_refl)
    then have "bounded eb (categoryProgress (tracker w1)) w1" unfolding a(4) .
    moreover have "quiet wb w1" by (rule quiet_write[OF q a(5) a(6)])
    ultimately show ?thesis using t1 by (intro exI[of _ "c + 1"]) simp
  qed
  then show ?thesis unfolding w1_def .
qed

lemma fold_mergeOne_trace:
  assumes "bounded eb (categoryProgress (tracker w)) w" and "quiet wb w"
    and "tracker w = t0\<lparr>completedCategories := c\<rparr>"
  shows "\<exists>c'. c' \<le> c + length cats
      \<and> tracker (fold (mergeOne e sid us fx) cats w) = t0\<lparr>completedCategories := c'\<rparr>
      \<and> bounded eb (categoryProgress (tracker (fold (mergeOne e sid us fx) cats w)))
            (fold (mergeOne e sid us fx) cats w)
      \<and> quiet wb (fold (mergeOne e sid us fx) cats w)"
  using assms
proof (induction cats arbitrary: w c)
  case Nil
  then show ?case by (intro exI[of _ c]) simp
next
  case (Cons cat cats)
  from mergeOne_step[OF Cons.prems, of e sid us fx cat]
  obtain c1 where c1: "c1 \<le> c + 1"
    "tracker (mergeOne e sid us fx cat w) = t0\<lparr>completedCategories := c1\<rparr>"
    "bounded eb (categoryProgress (tracker (mergeOne e sid us fx cat w))) (mergeOne e sid us fx cat w)"
    "quiet wb (mergeOne e sid us fx cat w)" by blast
  from Cons.IH[OF c1(3,4,2)] obtain c' where c':
    "c' \<le> c1 + length cats"
    "tracker (fold (mergeOne e sid us fx) cats (mergeOne e sid us fx cat w)) = t0\<lparr>completedCategories := c'\<rparr>"
    "bounded eb (categoryProgress (tracker (fold (mergeOne e sid us fx) cats (mergeOne e sid us fx cat w))))
            (fold (mergeOne e sid us fx) cats (mergeOne e sid us fx cat w))"
    "quiet wb (fold (mergeOne e sid us fx) cats (mergeOne e sid us fx cat w))" by blast
  have "c' \<le> c + length (cat # cats)" using c'(1) c1(1) by simp
  then show ?case using c'(2,3,4) by (intro exI[of _ c']) simp
qed

subsection \<open>Stage 2: the partial reports\<close>

lemma inj_taskKey: "inj_on taskKey (set getAllSignals)"
  using distinct_getAllSignals by (simp add: distinct_map)

text \<open>
  Claim C1. Stage 2 runs on a session that does not expire and holds the fixture. For every
  order in which the two workers are resumed, the partial reports of the session at the end
  of the stage are those it held before together with one entry per task that succeeded,
  under the composite key of the task and holding the report of that task; the entries the
  session held under other keys are unchanged; from an empty map, the number of entries is
  the number of tasks that succeeded. An \<open>updateSession\<close> carrying a partial report stores
  the session it finds with that report added under its key, every other entry kept.
\<close>

theorem no_lost_partial_reports:
  assumes "live e w sid s0" and "fixture (collectedData s0) \<noteq> None"
    and "generateSignals e schedule sid w = (r, w')"
  shows "\<exists>s. live e w' sid s
     \<and> dom (partialReports s) = dom (partialReports s0) \<union> taskKey ` succeeded (llm e) s0
     \<and> (\<forall>t \<in> succeeded (llm e) s0. partialReports s (taskKey t) = taskReport (llm e) s0 t)
     \<and> (\<forall>key \<in> dom (partialReports s0) - taskKey ` succeeded (llm e) s0.
           partialReports s key = partialReports s0 key)
     \<and> (partialReports s0 = Map.empty \<longrightarrow>
           card (dom (partialReports s)) = card (succeeded (llm e) s0))
     \<and> (\<forall>m key rep t x. getSession m sid t = (Some x, m) \<longrightarrow>
           updateSession m sid (noUpdate\<lparr>u_partialReport := Some (key, rep)\<rparr>) t
             = (True, m\<lparr>sessions := (sessions m)(sid \<mapsto> x\<lparr>partialReports := (partialReports x)(key \<mapsto> rep)\<rparr>)\<rparr>))"
proof -
  from stage2_result[OF assms] obtain s where
    ls: "live e w' sid s" and
    A: "\<forall>t \<in> set getAllSignals. \<forall>rep. taskReport (llm e) s0 t = Some rep \<longrightarrow>
            partialReports s (taskKey t) = Some rep" and
    B: "\<forall>key. key \<notin> taskKey ` {t \<in> set getAllSignals. taskReport (llm e) s0 t \<noteq> None} \<longrightarrow>
            partialReports s key = partialReports s0 key"
    by blast
  have a: "partialReports s (taskKey t) = taskReport (llm e) s0 t" if "t \<in> succeeded (llm e) s0" for t
    using that A unfolding succeeded_def by auto
  have b: "partialReports s key = partialReports s0 key" if "key \<notin> taskKey ` succeeded (llm e) s0" for key
    using that B unfolding succeeded_def by blast
  have d: "dom (partialReports s) = dom (partialReports s0) \<union> taskKey ` succeeded (llm e) s0"
  proof (rule set_eqI)
    fix key
    show "key \<in> dom (partialReports s) \<longleftrightarrow> key \<in> dom (partialReports s0) \<union> taskKey ` succeeded (llm e) s0"
    proof (cases "key \<in> taskKey ` succeeded (llm e) s0")
      case True
      then obtain t where t: "t \<in> succeeded (llm e) s0" "key = taskKey t" by blast
      then have "partialReports s key \<noteq> None" using a[OF t(1)] unfolding succeeded_def by simp
      then show ?thesis using True by blast
    next
      case False
      then show ?thesis using b[OF False] by (simp add: dom_def)
    qed
  qed
  have c: "card (dom (partialReports s)) = card (succeeded (llm e) s0)" if "partialReports s0 = Map.empty"
  proof -
    have "inj_on taskKey (succeeded (llm e) s0)"
      by (rule inj_on_subset[OF inj_taskKey]) (auto simp: succeeded_def)
    then show ?thesis unfolding d by (simp add: that card_image)
  qed
  have u: "updateSession m sid (noUpdate\<lparr>u_partialReport := Some (key, rep)\<rparr>) t
             = (True, m\<lparr>sessions := (sessions m)(sid \<mapsto> x\<lparr>partialReports := (partialReports x)(key \<mapsto> rep)\<rparr>)\<rparr>)"
    if "getSession m sid t = (Some x, m)" for m key rep t x
    using that by (simp add: updateSession_def applyUpdates_partialReport)
  show ?thesis
    by (intro exI[of _ s] conjI ballI allI impI ls d a b c u) auto
qed

lemma example_reports:
  "t \<in> set getAllSignals \<Longrightarrow> taskReport exampleCompletion stage2Session t \<noteq> None"
  by (simp add: taskReport_def signalInput_def stage2Session_def exampleCompletion_def
        analyzeSignal_def createSignalChain_def getChatModel_def truthyStr_def emptyData_def)

lemma live_stage2Session: "live exampleEnv (worldWith stage2Session) ''s1'' stage2Session"
  by (rule live_example) (simp_all add: stage2Session_def exampleSession_def)

theorem no_lost_partial_reports_witness:
  "\<exists>s. live exampleEnv (snd (generateSignals exampleEnv [1, 0, 0, 1, 1] ''s1'' (worldWith stage2Session))) ''s1'' s
      \<and> dom (partialReports s) = taskKey ` set getAllSignals
      \<and> card (dom (partialReports s)) = 11"
proof -
  have fx: "fixture (collectedData stage2Session) \<noteq> None"
    by (simp add: stage2Session_def emptyData_def)
  have all: "succeeded (llm exampleEnv) stage2Session = set getAllSignals"
    using example_reports by (auto simp: succeeded_def exampleEnv_def)
  have e: "partialReports stage2Session = Map.empty"
    by (simp add: stage2Session_def exampleSession_def)
  have "length getAllSignals = 11"
    by (simp add: getAllSignals_def allSignals_def REPORT_BLUEPRINT_def)
  then have n: "card (set getAllSignals) = 11"
    using distinct_getAllSignals distinct_card[of getAllSignals] distinct_map[of taskKey getAllSignals]
    by simp
  from no_lost_partial_reports[OF live_stage2Session fx surjective_pairing, of "[1, 0, 0, 1, 1]"]
  show ?thesis unfolding all e n by auto
qed





subsection \<open>Stages 3 and 4 on any world\<close>

lemma mergeCategories_trace:
  assumes b: "bounded eb b w" and b70: "b \<le> 70" and q: "quiet wb w"
    and c0: "completedCategories (tracker w) = 0"
    and tot: "totalCategories (tracker w) = length REPORT_BLUEPRINT"
  shows "bounded eb 90 (snd (mergeCategories e sid w)) \<and> quiet wb (snd (mergeCategories e sid w))"
proof -
  obtain r w1 where g: "storeGet e sid w = (r, w1)" by (cases "storeGet e sid w")
  then have w1: "w1 = snd (storeGet e sid w)" by simp
  have b1: "bounded eb b w1" using b unfolding w1 by (rule bounded_same) simp
  have q1: "quiet wb w1" using q unfolding w1 by (rule quiet_same) simp
  have t1: "tracker w1 = tracker w" unfolding w1 by simp
  have b90: "bounded eb 90 w1" by (rule bounded_mono[OF b1]) (use b70 in simp)
  have run: "bounded eb 90 (fold (mergeOne e sid us fx) REPORT_BLUEPRINT w1)
       \<and> quiet wb (fold (mergeOne e sid us fx) REPORT_BLUEPRINT w1)" for us fx
  proof -
    have "b \<le> categoryProgress (tracker w1)"
      using b70 categoryProgress_range(1)[of "tracker w1"] by simp
    then have bb: "bounded eb (categoryProgress (tracker w1)) w1"
      by (rule bounded_mono[OF b1])
    have "(tracker w)\<lparr>completedCategories := completedCategories (tracker w)\<rparr> = tracker w" by simp
    then have tz: "tracker w1 = (tracker w)\<lparr>completedCategories := 0\<rparr>"
      unfolding t1 c0 by (rule sym)
    from fold_mergeOne_trace[OF bb q1 tz, of REPORT_BLUEPRINT e sid us fx] obtain c' where
      c': "c' \<le> 0 + length REPORT_BLUEPRINT"
      "tracker (fold (mergeOne e sid us fx) REPORT_BLUEPRINT w1) = (tracker w)\<lparr>completedCategories := c'\<rparr>"
      "bounded eb (categoryProgress (tracker (fold (mergeOne e sid us fx) REPORT_BLUEPRINT w1)))
            (fold (mergeOne e sid us fx) REPORT_BLUEPRINT w1)"
      "quiet wb (fold (mergeOne e sid us fx) REPORT_BLUEPRINT w1)" by blast
    have "completedCategories (tracker (fold (mergeOne e sid us fx) REPORT_BLUEPRINT w1))
            \<le> totalCategories (tracker (fold (mergeOne e sid us fx) REPORT_BLUEPRINT w1))"
      unfolding c'(2) using c'(1) tot by simp
    then have "categoryProgress (tracker (fold (mergeOne e sid us fx) REPORT_BLUEPRINT w1)) \<le> 90"
      by (rule categoryProgress_range(2))
    then have "bounded eb 90 (fold (mergeOne e sid us fx) REPORT_BLUEPRINT w1)"
      by (rule bounded_mono[OF c'(3)])
    then show ?thesis using c'(4) by (rule conjI)
  qed
  show ?thesis
  proof (cases r)
    case None
    then show ?thesis using b90 q1 by (simp add: mergeCategories_def g)
  next
    case (Some updatedSession)
    show ?thesis
    proof (cases "fixture (collectedData updatedSession)")
      case None
      then show ?thesis using b90 q1 Some by (simp add: mergeCategories_def g)
    next
      case (Some fx)
      then show ?thesis using run[of updatedSession fx] \<open>r = Some updatedSession\<close>
        by (simp add: mergeCategories_def g)
    qed
  qed
qed

lemma bounded_final:
  assumes "bounded eb b w" and "b \<le> 90 + p"
  shows "bounded eb (90 + p) (emitFinalSynthesis msg p w)"
proof -
  let ?u = "\<lparr>stage = final_synthesis, progress = 90 + p, message = msg,
               currentTask = Some msg, details = None\<rparr>"
  have "bounded eb (progress ?u) (callback ?u w)"
    by (rule bounded_emit[OF assms(1)]) (simp_all add: assms(2))
  then show ?thesis by (simp add: emitFinalSynthesis_def)
qed

lemma writes_final [simp]: "writes (emitFinalSynthesis msg p w) = writes w"
  by (simp add: emitFinalSynthesis_def)

lemma synthesizeFinal_trace:
  assumes b: "bounded eb b w" and b95: "b \<le> 95" and q: "quiet wb w"
  shows "bounded eb 99 (snd (synthesizeFinal e sid w)) \<and> quiet wb (snd (synthesizeFinal e sid w))"
proof -
  define w1 where "w1 = emitFinalSynthesis ''Synthesizing final report...'' 5 w"
  obtain r w2 where g: "storeGet e sid w1 = (r, w2)" by (cases "storeGet e sid w1")
  then have w2: "w2 = snd (storeGet e sid w1)" by simp
  define w3 where "w3 = resume (emitFinalSynthesis ''Generating comprehensive analysis...'' 7 w2)"
  define w4 where "w4 = emitFinalSynthesis ''Formatting final report...'' 9 w3"
  have b1: "bounded eb (90 + 5) w1" unfolding w1_def by (rule bounded_final[OF b]) (use b95 in simp)
  have q1: "quiet wb w1" unfolding w1_def by (rule quiet_same[OF q]) simp
  have b2: "bounded eb (90 + 5) w2" unfolding w2 by (rule bounded_same[OF b1]) simp
  have q2: "quiet wb w2" unfolding w2 by (rule quiet_same[OF q1]) simp
  have "bounded eb (90 + 7) (emitFinalSynthesis ''Generating comprehensive analysis...'' 7 w2)"
    by (rule bounded_final[OF b2]) simp
  then have b3: "bounded eb (90 + 7) w3" unfolding w3_def by (rule bounded_same) simp
  have q3: "quiet wb w3" unfolding w3_def by (rule quiet_same[OF q2]) simp
  have b4: "bounded eb (90 + 9) w4" unfolding w4_def by (rule bounded_final[OF b3]) simp
  have q4: "quiet wb w4" unfolding w4_def by (rule quiet_same[OF q3]) simp
  have b5: "bounded eb (90 + 9) (storeUpdate e sid (noUpdate\<lparr>u_finalReport := Some md\<rparr>) w4)" for md
    by (rule bounded_same[OF b4]) simp
  have q5: "quiet wb (storeUpdate e sid (noUpdate\<lparr>u_finalReport := Some md\<rparr>) w4)" for md
    by (rule quiet_write[OF q4, where u = "noUpdate\<lparr>u_finalReport := Some md\<rparr>"])
       (simp_all add: noUpdate_def)
  have cases: "snd (synthesizeFinal e sid w) = w2 \<or> snd (synthesizeFinal e sid w) = w3
      \<or> snd (synthesizeFinal e sid w) = w4
      \<or> (\<exists>md. snd (synthesizeFinal e sid w) = storeUpdate e sid (noUpdate\<lparr>u_finalReport := Some md\<rparr>) w4)"
    unfolding w4_def w3_def using g[unfolded w1_def]
    by (auto simp: synthesizeFinal_def Let_def split: option.splits sum.splits)
  have good: "bounded eb 99 x \<and> quiet wb x" if "bounded eb (90 + k) x" "k \<le> 9" "quiet wb x" for x k
    using bounded_mono[OF that(1), of 99] that(2,3) by simp
  from cases show ?thesis
  proof (elim disjE exE)
    assume "snd (synthesizeFinal e sid w) = w2"
    then show ?thesis using good[OF b2 _ q2] by simp
  next
    assume "snd (synthesizeFinal e sid w) = w3"
    then show ?thesis using good[OF b3 _ q3] by simp
  next
    assume "snd (synthesizeFinal e sid w) = w4"
    then show ?thesis using good[OF b4 _ q4] by simp
  next
    fix md
    assume "snd (synthesizeFinal e sid w) = storeUpdate e sid (noUpdate\<lparr>u_finalReport := Some md\<rparr>) w4"
    then show ?thesis using good[OF b5[of md] _ q5[of md]] by simp
  qed
qed

subsection \<open>The logs of a run\<close>

lemma runTrace_Inl: "bounded eb b w \<Longrightarrow> b \<le> 99 \<Longrightarrow> quiet wb w \<Longrightarrow> runTrace eb wb (Inl err) w"
  unfolding runTrace_def using bounded_mono[of eb b w 99] by simp

lemma runStages_trace:
  assumes t: "tracker w = newProgressTracker (length getAllSignals) (length REPORT_BLUEPRINT)"
  shows "runTrace (emitted w) (writes w @ [noUpdate\<lparr>u_status := Some Generating\<rparr>])
           (fst (runStages e schedule sid session w)) (snd (runStages e schedule sid session w))"
proof -
  let ?eb = "emitted w" and ?wb = "writes w @ [noUpdate\<lparr>u_status := Some Generating\<rparr>]"
  define w0 where "w0 = storeUpdate e sid (noUpdate\<lparr>u_status := Some Generating\<rparr>) w"
  have b0: "bounded ?eb 10 w0" using bounded_refl[of w0 10] by (simp add: w0_def)
  have q0: "quiet ?wb w0" using quiet_refl[of w0] by (simp add: w0_def)
  have t0: "tracker w0 = tracker w" by (simp add: w0_def)
  obtain r1 w1 where c1: "collectData e sid session w0 = (r1, w1)"
    by (cases "collectData e sid session w0")
  from collectData_trace[OF b0 _ q0, of e sid session] c1
  have s1: "bounded ?eb 10 w1" "quiet ?wb w1" "tracker w1 = tracker w"
    by (simp_all add: stage1Trace_def t0)
  obtain r2 w2 where c2: "generateSignals e schedule sid w1 = (r2, w2)"
    by (cases "generateSignals e schedule sid w1")
  have "completedSignals (tracker w1) = 0" "totalSignals (tracker w1) = length getAllSignals"
    unfolding s1(3) t by (simp_all add: newProgressTracker_def)
  from generateSignals_trace[OF s1(1) _ s1(2) this, of e schedule sid] c2
  obtain c where s2: "bounded ?eb 70 w2" "quiet ?wb w2"
    "tracker w2 = (tracker w1)\<lparr>completedSignals := c\<rparr>" by auto
  obtain r3 w3 where c3: "mergeCategories e sid w2 = (r3, w3)"
    by (cases "mergeCategories e sid w2")
  have "completedCategories (tracker w2) = 0" "totalCategories (tracker w2) = length REPORT_BLUEPRINT"
    unfolding s2(3) s1(3) t by (simp_all add: newProgressTracker_def)
  from mergeCategories_trace[OF s2(1) _ s2(2) this, of e sid] c3
  have s3: "bounded ?eb 90 w3" "quiet ?wb w3" by simp_all
  obtain r4 w4 where c4: "synthesizeFinal e sid w3 = (r4, w4)"
    by (cases "synthesizeFinal e sid w3")
  from synthesizeFinal_trace[OF s3(1) _ s3(2), of e sid] c4
  have s4: "bounded ?eb 99 w4" "quiet ?wb w4" by simp_all
  show ?thesis
  proof (cases r1)
    case (Inl err)
    then have "runStages e schedule sid session w = (Inl err, w1)"
      using c1 by (simp add: runStages_def thenDo_def w0_def)
    then show ?thesis using runTrace_Inl[OF s1(1) _ s1(2)] by simp
  next
    case a1: (Inr u1)
    show ?thesis
    proof (cases r2)
      case (Inl err)
      then have "runStages e schedule sid session w = (Inl err, w2)"
        using c1 c2 a1 by (simp add: runStages_def thenDo_def w0_def)
      then show ?thesis using runTrace_Inl[OF s2(1) _ s2(2)] by simp
    next
      case a2: (Inr u2)
      show ?thesis
      proof (cases r3)
        case (Inl err)
        then have "runStages e schedule sid session w = (Inl err, w3)"
          using c1 c2 c3 a1 a2 by (simp add: runStages_def thenDo_def w0_def)
        then show ?thesis using runTrace_Inl[OF s3(1) _ s3(2)] by simp
      next
        case a3: (Inr u3)
        show ?thesis
        proof (cases r4)
          case (Inl err)
          then have "runStages e schedule sid session w = (Inl err, w4)"
            using c1 c2 c3 c4 a1 a2 a3 by (simp add: runStages_def thenDo_def w0_def)
          then show ?thesis using runTrace_Inl[OF s4(1) _ s4(2)] by simp
        next
          case a4: (Inr u4)
          then have "runStages e schedule sid session w
              = (Inr (), callback completedUpdate
                        (storeUpdate e sid (noUpdate\<lparr>u_status := Some Completed\<rparr>) w4))"
            using c1 c2 c3 c4 a1 a2 a3 by (simp add: runStages_def thenDo_def w0_def)
          then show ?thesis using s4 unfolding runTrace_def
            by (auto intro!: exI[of _ w4])
        qed
      qed
    qed
  qed
qed

lemma generate_cases:
  "(generate e schedule sid w = (Inl (''Session not found: '' @ sid), snd (storeGet e sid w))
      \<and> fst (storeGet e sid w) = None)
   \<or> (\<exists>session w1 r. fst (storeGet e sid w) = Some session
        \<and> runStages e schedule sid session
            ((snd (storeGet e sid w))\<lparr>tracker := newProgressTracker (length getAllSignals)
                 (length REPORT_BLUEPRINT)\<rparr>) = (r, w1)
        \<and> (case r of
              Inl err \<Rightarrow> generate e schedule sid w
                = (Inl err, storeUpdate e sid (noUpdate\<lparr>u_status := Some Error, u_error := Some err\<rparr>) w1)
            | Inr u \<Rightarrow> generate e schedule sid w = (Inr (), w1)))"
  by (cases "storeGet e sid w")
     (auto simp: generate_def split: option.splits prod.splits sum.splits)

lemma bounded_snoc:
  fixes w :: world
  assumes "bounded eb 99 w4" and "emitted w = emitted w4 @ [completedUpdate]"
  shows "\<exists>es. emitted w = eb @ es \<and> sorted (map progress es) \<and> (\<forall>u \<in> set es. progress u \<le> 100)
      \<and> es \<noteq> [] \<and> last es = completedUpdate"
proof -
  have p: "progress completedUpdate = 100" by (simp add: completedUpdate_def)
  from assms(1) obtain es where es: "emitted w4 = eb @ es" "sorted (map progress es)"
    "\<forall>x \<in> set es. progress x \<le> 99" unfolding bounded_def by blast
  have "sorted (map progress (es @ [completedUpdate]))"
    using es(2,3) by (auto simp: sorted_append p)
  moreover have "\<forall>x \<in> set (es @ [completedUpdate]). progress x \<le> 100"
    using es(3) by (auto simp: p)
  moreover have "emitted w = eb @ (es @ [completedUpdate])" using es(1) assms(2) by simp
  ultimately show ?thesis by (intro exI[of _ "es @ [completedUpdate]"]) simp
qed

subsection \<open>The stages on a session that does not expire\<close>

lemma frame_applyUpdates:
  "u_status u = None \<Longrightarrow> u_error u = None \<Longrightarrow> u_finalReport u = None \<Longrightarrow> u_chatMessage u = None
     \<Longrightarrow> frame (applyUpdates s u) = frame s"
  by (simp add: frame_def applyUpdates_def Let_def truthyStr_def split: option.splits prod.splits)

lemma fixture_applyUpdates:
  "fixture (collectedData (applyUpdates s u))
     = (case u_collectedData u of
          Some cd \<Rightarrow> orElse (fixture cd) (fixture (collectedData s))
        | None \<Rightarrow> fixture (collectedData s))"
  by (simp add: applyUpdates_def Let_def spreadData_def split: option.splits prod.splits)

lemma staged_update:
  assumes "staged e sid s fx w"
    and "u_status u = None" "u_error u = None" "u_finalReport u = None" "u_chatMessage u = None"
    and "\<And>cd. u_collectedData u = Some cd \<Longrightarrow> fixture cd = None"
  shows "staged e sid s fx (storeUpdate e sid u w)"
proof -
  from assms(1) obtain s' where s': "live e w sid s'" "frame s' = frame s"
    "fixture (collectedData s') = Some fx" unfolding staged_def by blast
  have "fixture (collectedData (applyUpdates s' u)) = Some fx"
    using assms(6) s'(3) by (simp add: fixture_applyUpdates orElse_def split: option.splits)
  moreover have "frame (applyUpdates s' u) = frame s"
    using frame_applyUpdates[OF assms(2-5), of s'] s'(2) by simp
  ultimately show ?thesis
    unfolding staged_def using live_storeUpdate[OF s'(1), of u] by blast
qed

lemma staged_simps [simp]:
  "staged e sid s fx (resume w) = staged e sid s fx w"
  "staged e sid s fx (callback u w) = staged e sid s fx w"
  "staged e sid s fx (emitDataCollection msg w) = staged e sid s fx w"
  "staged e sid s fx (emitCategoryStart c n w) = staged e sid s fx w"
  "staged e sid s fx (emitCategoryComplete c w) = staged e sid s fx w"
  "staged e sid s fx (emitFinalSynthesis msg p w) = staged e sid s fx w"
  by (simp_all add: staged_def)

lemma staged_fragment:
  assumes "staged e sid s fx w" and "\<And>d. fixture (f d) = None"
  shows "staged e sid s fx (storeFragment e sid result f w)"
  using assms
  by (auto simp: storeFragment_def noUpdate_def intro!: staged_update split: option.splits)

lemma fragments [simp]:
  "fixture (emptyData\<lparr>statistics := x\<rparr>) = None"
  "fixture (emptyData\<lparr>injuries := x\<rparr>) = None"
  "fixture (emptyData\<lparr>lineups := x\<rparr>) = None"
  "fixture (emptyData\<lparr>h2h := x\<rparr>) = None"
  "fixture (emptyData\<lparr>standings := x\<rparr>) = None"
  by (simp_all add: emptyData_def)

lemma collectData_staged:
  assumes l: "live e w sid s"
    and f: "primaryFixture (api e) (fixtureId session) = Some fx"
  shows "fst (collectData e sid session w) = Inr ()
       \<and> staged e sid s fx (snd (collectData e sid session w))"
proof -
  define w1 where "w1 = resume (emitDataCollection ''Fetching fixture details...'' w)"
  define w2 where "w2 = storeUpdate e sid
                         (noUpdate\<lparr>u_collectedData := Some (emptyData\<lparr>fixture := Some fx\<rparr>)\<rparr>) w1"
  have l1: "live e w1 sid s" using l by (simp add: w1_def)
  have "frame (applyUpdates s (noUpdate\<lparr>u_collectedData := Some (emptyData\<lparr>fixture := Some fx\<rparr>)\<rparr>))
          = frame s"
    by (rule frame_applyUpdates) (simp_all add: noUpdate_def)
  moreover have "fixture (collectedData (applyUpdates s
         (noUpdate\<lparr>u_collectedData := Some (emptyData\<lparr>fixture := Some fx\<rparr>)\<rparr>))) = Some fx"
    by (simp add: fixture_applyUpdates noUpdate_def orElse_def)
  ultimately have s2: "staged e sid s fx w2"
    unfolding staged_def w2_def
    using live_storeUpdate[OF l1, of "noUpdate\<lparr>u_collectedData := Some (emptyData\<lparr>fixture := Some fx\<rparr>)\<rparr>"]
    by blast
  obtain others where g: "(if success (getFixtures (api e) (fixtureId session))
       then p_data (getFixtures (api e) (fixtureId session)) else None) = Some (fx # others)"
    using f unfolding primaryFixture_def by (auto split: option.splits list.splits if_splits)
  show ?thesis
    unfolding collectData_def Let_def g
    using s2[unfolded w2_def w1_def]
    by (auto intro!: staged_fragment)
qed

lemma mergeOne_staged:
  assumes "staged e sid s fx w"
  shows "staged e sid s fx (mergeOne e sid us fx' cat w)"
  using assms
  by (auto simp: mergeOne_def Let_def noUpdate_def intro!: staged_update split: sum.splits)

lemma fold_mergeOne_staged:
  "staged e sid s fx w \<Longrightarrow> staged e sid s fx (fold (mergeOne e sid us fx') cats w)"
  by (induction cats arbitrary: w) (simp_all add: mergeOne_staged)

lemma mergeCategories_staged:
  assumes "staged e sid s fx w"
  shows "fst (mergeCategories e sid w) = Inr () \<and> staged e sid s fx (snd (mergeCategories e sid w))"
proof -
  from assms obtain s' where s': "live e w sid s'" "fixture (collectedData s') = Some fx"
    unfolding staged_def by blast
  show ?thesis
    using assms s'(2) by (simp add: mergeCategories_def live_storeGet[OF s'(1)] fold_mergeOne_staged)
qed

lemma generateSignals_staged:
  assumes "staged e sid s fx w"
  shows "fst (generateSignals e schedule sid w) = Inr ()
       \<and> staged e sid s fx (snd (generateSignals e schedule sid w))"
proof -
  from assms obtain s0 where s0: "live e w sid s0" "frame s0 = frame s"
    "fixture (collectedData s0) = Some fx" unfolding staged_def by blast
  have fx: "fixture (collectedData s0) \<noteq> None" using s0(3) by simp
  from stage2_result[OF s0(1) fx surjective_pairing, of schedule] obtain s1 where
    r: "fst (generateSignals e schedule sid w) = Inr ()" and
    l1: "live e (snd (generateSignals e schedule sid w)) sid s1" and
    eq: "s1\<lparr>partialReports := partialReports s0\<rparr> = s0" by blast
  have "frame (s1\<lparr>partialReports := partialReports s0\<rparr>) = frame s1"
    "collectedData (s1\<lparr>partialReports := partialReports s0\<rparr>) = collectedData s1"
    by (simp_all add: frame_def)
  then have "frame s1 = frame s" "fixture (collectedData s1) = Some fx"
    unfolding eq using s0(2,3) by simp_all
  then show ?thesis using r l1 unfolding staged_def by blast
qed

lemma synthesizeFinal_fails:
  assumes st: "staged e sid s fx w"
    and fmt: "\<And>reports. \<exists>formatted. formatCategoryReportsForFinal (llm e) reports = Inr formatted"
    and syn: "\<And>input. synthesizeFinalReport (llm e) input = Inl m"
  shows "fst (synthesizeFinal e sid w) = Inl m \<and> staged e sid s fx (snd (synthesizeFinal e sid w))"
proof -
  define w1 where "w1 = emitFinalSynthesis ''Synthesizing final report...'' 5 w"
  have st1: "staged e sid s fx w1" using st by (simp add: w1_def)
  then obtain s' where s': "live e w1 sid s'" "fixture (collectedData s') = Some fx"
    unfolding staged_def by blast
  obtain formatted where fc: "formatCategoryReportsForFinal (llm e) (categoryReports s') = Inr formatted"
    using fmt by blast
  show ?thesis
    using st1 s'(2)
    by (simp add: synthesizeFinal_def Let_def w1_def[symmetric] live_storeGet[OF s'(1)] fc syn)
qed

lemma synthesizeFinal_succeeds:
  assumes st: "staged e sid s fx w"
    and fmt: "\<And>reports. \<exists>formatted. formatCategoryReportsForFinal (llm e) reports = Inr formatted"
    and syn: "\<And>input. \<exists>result. synthesizeFinalReport (llm e) input = Inr result"
    and md: "\<And>result. \<exists>formatted. formatFinalReportAsMarkdown (llm e) result = Inr formatted"
  shows "fst (synthesizeFinal e sid w) = Inr ()"
proof -
  define w1 where "w1 = emitFinalSynthesis ''Synthesizing final report...'' 5 w"
  have st1: "staged e sid s fx w1" using st by (simp add: w1_def)
  then obtain s' where s': "live e w1 sid s'" "fixture (collectedData s') = Some fx"
    unfolding staged_def by blast
  obtain formatted where fc: "formatCategoryReportsForFinal (llm e) (categoryReports s') = Inr formatted"
    using fmt by blast
  obtain result where result: "synthesizeFinalReport (llm e)
       \<lparr>fi_homeTeam = homeTeamName fx, fi_awayTeam = awayTeamName fx, fi_league = leagueName fx,
        fi_date = toLocaleDateString (llm e) (fixtureDate fx), fi_categoryReports = formatted\<rparr> = Inr result"
    using syn by blast
  obtain markdown where markdown: "formatFinalReportAsMarkdown (llm e) result = Inr markdown"
    using md by blast
  show ?thesis
    using s'(2)
    by (simp add: synthesizeFinal_def Let_def w1_def[symmetric] live_storeGet[OF s'(1)] fc result markdown)
qed



lemma runStages_staged:
  assumes l: "live e w sid s"
    and f: "primaryFixture (api e) (fixtureId session) = Some fx"
  shows "\<exists>w3. staged e sid (s\<lparr>status := Generating\<rparr>) fx w3
      \<and> runStages e schedule sid session w
          = thenDo (synthesizeFinal e sid w3)
              (\<lambda>w. (Inr (), callback completedUpdate
                        (storeUpdate e sid (noUpdate\<lparr>u_status := Some Completed\<rparr>) w)))"
proof -
  define w0 where "w0 = storeUpdate e sid (noUpdate\<lparr>u_status := Some Generating\<rparr>) w"
  have l0: "live e w0 sid (s\<lparr>status := Generating\<rparr>)"
    using live_storeUpdate[OF l, of "noUpdate\<lparr>u_status := Some Generating\<rparr>"]
    by (simp add: w0_def applyUpdates_statusOnly)
  obtain r1 w1 where c1: "collectData e sid session w0 = (r1, w1)"
    by (cases "collectData e sid session w0")
  obtain r2 w2 where c2: "generateSignals e schedule sid w1 = (r2, w2)"
    by (cases "generateSignals e schedule sid w1")
  obtain r3 w3 where c3: "mergeCategories e sid w2 = (r3, w3)"
    by (cases "mergeCategories e sid w2")
  from collectData_staged[OF l0 f] c1
  have s1: "r1 = Inr ()" "staged e sid (s\<lparr>status := Generating\<rparr>) fx w1" by simp_all
  from generateSignals_staged[OF s1(2), of schedule] c2
  have s2: "r2 = Inr ()" "staged e sid (s\<lparr>status := Generating\<rparr>) fx w2" by simp_all
  from mergeCategories_staged[OF s2(2)] c3
  have s3: "r3 = Inr ()" "staged e sid (s\<lparr>status := Generating\<rparr>) fx w3" by simp_all
  have "runStages e schedule sid session w
          = thenDo (synthesizeFinal e sid w3)
              (\<lambda>w. (Inr (), callback completedUpdate
                        (storeUpdate e sid (noUpdate\<lparr>u_status := Some Completed\<rparr>) w)))"
    using c1 c2 c3 s1(1) s2(1) s3(1)
    by (simp add: runStages_def w0_def[symmetric] thenDo_def)
  then show ?thesis using s3(2) by blast
qed

lemma generate_live:
  assumes "live e w sid s"
  shows "generate e schedule sid w
     = (case runStages e schedule sid s
                 (w\<lparr>tracker := newProgressTracker (length getAllSignals) (length REPORT_BLUEPRINT)\<rparr>) of
            (Inl err, w1) \<Rightarrow>
              (Inl err, storeUpdate e sid (noUpdate\<lparr>u_status := Some Error, u_error := Some err\<rparr>) w1)
          | (Inr u, w1) \<Rightarrow> (Inr (), w1))"
  by (simp add: generate_def live_storeGet[OF assms])

lemma synthesizeFinalReport_message:
  "synthesizeFinalReport service input = Inl m \<Longrightarrow> m \<noteq> []"
  by (auto simp: synthesizeFinalReport_def createFinalChain_def getChatModel_def
        split: sum.splits if_splits)

subsection \<open>The run\<close>

lemma generate_emitted:
  assumes "generate e schedule sid w = (r, w')"
  shows "\<exists>es. emitted w' = emitted w @ es \<and> sorted (map progress es)
      \<and> (\<forall>u \<in> set es. progress u \<le> 100)
      \<and> (r = Inr () \<longrightarrow> es \<noteq> [] \<and> last es = completedUpdate)"
proof -
  let ?w0 = "(snd (storeGet e sid w))\<lparr>tracker := newProgressTracker (length getAllSignals)
                 (length REPORT_BLUEPRINT)\<rparr>"
  have e0: "emitted ?w0 = emitted w" by simp
  from generate_cases[of e schedule sid w] show ?thesis
  proof (elim disjE exE conjE)
    assume "generate e schedule sid w = (Inl (''Session not found: '' @ sid), snd (storeGet e sid w))"
    then have "r = Inl (''Session not found: '' @ sid)" "emitted w' = emitted w"
      using assms by auto
    then show ?thesis by simp
  next
    fix session w1 r1
    assume rs: "runStages e schedule sid session ?w0 = (r1, w1)"
      and c: "case r1 of
              Inl err \<Rightarrow> generate e schedule sid w
                = (Inl err, storeUpdate e sid (noUpdate\<lparr>u_status := Some Error, u_error := Some err\<rparr>) w1)
            | Inr u \<Rightarrow> generate e schedule sid w = (Inr (), w1)"
    have tr: "runTrace (emitted w) (writes ?w0 @ [noUpdate\<lparr>u_status := Some Generating\<rparr>]) r1 w1"
      using runStages_trace[of ?w0 e schedule sid session] rs by simp
    show ?thesis
    proof (cases r1)
      case (Inl err)
      then have "r = Inl err" "emitted w' = emitted w1" using c assms by auto
      moreover from tr Inl have "bounded (emitted w) 99 w1" by (simp add: runTrace_def)
      ultimately show ?thesis unfolding bounded_def by fastforce
    next
      case (Inr u)
      then have w': "w' = w1" using c assms by auto
      from tr Inr obtain w4 where "bounded (emitted w) 99 w4" "emitted w1 = emitted w4 @ [completedUpdate]"
        unfolding runTrace_def by auto
      from bounded_snoc[OF this] show ?thesis unfolding w' by blast
    qed
  qed
qed



lemma generate_succeeds:
  assumes l: "live e w sid s"
    and f: "primaryFixture (api e) (fixtureId s) = Some fx"
    and fmt: "\<And>reports. \<exists>formatted. formatCategoryReportsForFinal (llm e) reports = Inr formatted"
    and syn: "\<And>input. \<exists>result. synthesizeFinalReport (llm e) input = Inr result"
    and md: "\<And>result. \<exists>formatted. formatFinalReportAsMarkdown (llm e) result = Inr formatted"
  shows "fst (generate e schedule sid w) = Inr ()"
proof -
  let ?w0 = "w\<lparr>tracker := newProgressTracker (length getAllSignals) (length REPORT_BLUEPRINT)\<rparr>"
  have l0: "live e ?w0 sid s" using l by simp
  from runStages_staged[OF l0 f, of schedule] obtain w3 where
    w3: "staged e sid (s\<lparr>status := Generating\<rparr>) fx w3"
    "runStages e schedule sid s ?w0
          = thenDo (synthesizeFinal e sid w3)
              (\<lambda>w. (Inr (), callback completedUpdate
                        (storeUpdate e sid (noUpdate\<lparr>u_status := Some Completed\<rparr>) w)))" by blast
  obtain r4 w4 where c4: "synthesizeFinal e sid w3 = (r4, w4)" by (cases "synthesizeFinal e sid w3")
  from synthesizeFinal_succeeds[OF w3(1) fmt syn md] c4 have "r4 = Inr ()" by simp
  then show ?thesis by (simp add: generate_live[OF l] w3(2) c4 thenDo_def)
qed

lemma example_succeeds:
  "fst (generate exampleEnv schedule ''s1'' (worldWith exampleSession)) = Inr ()"
proof (rule generate_succeeds[where s = exampleSession and fx = exampleFixture])
  show "live exampleEnv (worldWith exampleSession) ''s1'' exampleSession"
    by (rule live_example) (simp_all add: exampleSession_def)
  show "primaryFixture (api exampleEnv) (fixtureId exampleSession) = Some exampleFixture"
    by (simp add: primaryFixture_def exampleEnv_def exampleApi_def)
qed (simp_all add: exampleEnv_def exampleCompletion_def synthesizeFinalReport_def
       createFinalChain_def getChatModel_def truthyStr_def)

subsection \<open>Progress over a run\<close>

text \<open>
  Claim C3. Over any run of \<open>generate\<close>, for every order in which the workers of stage 2
  are resumed and whatever the store, the football API and the completion service do, the
  percentages of the progress updates the run delivers to the callback, in order of
  delivery, are non-decreasing and at most 100; and when the run returns without an error
  it has delivered at least one update and the last one carries exactly 100.
\<close>

theorem progress_never_decreases:
  assumes "generate e schedule sid w = (r, w')"
  shows "\<exists>es. emitted w' = emitted w @ es \<and> sorted (map progress es)
      \<and> (\<forall>u \<in> set es. progress u \<le> 100)
      \<and> (r = Inr () \<longrightarrow> es \<noteq> [] \<and> progress (last es) = 100)"
proof -
  from generate_emitted[OF assms] obtain es where
    es: "emitted w' = emitted w @ es" "sorted (map progress es)"
    "\<forall>u \<in> set es. progress u \<le> 100" "r = Inr () \<longrightarrow> es \<noteq> [] \<and> last es = completedUpdate"
    by blast
  have "r = Inr () \<longrightarrow> es \<noteq> [] \<and> progress (last es) = 100"
    using es(4) by (simp add: completedUpdate_def)
  with es(1-3) show ?thesis by blast
qed

theorem progress_never_decreases_witness:
  "fst (generate exampleEnv [1, 0, 0, 1] ''s1'' (worldWith exampleSession)) = Inr ()
   \<and> sorted (map progress (emitted (snd (generate exampleEnv [1, 0, 0, 1] ''s1'' (worldWith exampleSession)))))
   \<and> emitted (snd (generate exampleEnv [1, 0, 0, 1] ''s1'' (worldWith exampleSession))) \<noteq> []
   \<and> progress (last (emitted (snd (generate exampleEnv [1, 0, 0, 1] ''s1'' (worldWith exampleSession))))) = 100"
proof -
  have e: "emitted (worldWith exampleSession) = []" by (simp add: worldWith_def)
  from progress_never_decreases[OF surjective_pairing, of exampleEnv "[1, 0, 0, 1]" "''s1''"
      "worldWith exampleSession"]
  show ?thesis unfolding e using example_succeeds[of "[1, 0, 0, 1]"] by auto
qed

subsection \<open>Failure of the final synthesis\<close>

text \<open>
  Claim C5. A run on a session that does not expire, whose first fixture fetch succeeds and
  whose formatter of category reports returns: if the call of \<open>synthesizeFinalReport\<close> throws
  an error with message \<open>m\<close>, then for every order of resumption in stage 2 the run throws
  that error, the session is left with status \<open>error\<close> and \<open>m\<close> in its error field, and its
  final report is what it was before the run (\<open>null\<close> for a fresh session).
\<close>

theorem final_synthesis_failure_aborts:
  assumes "live e w sid s"
    and "primaryFixture (api e) (fixtureId s) = Some fx"
    and "\<forall>reports. \<exists>formatted. formatCategoryReportsForFinal (llm e) reports = Inr formatted"
    and "\<forall>input. synthesizeFinalReport (llm e) input = Inl m"
    and "generate e schedule sid w = (r, w')"
  shows "r = Inl m
       \<and> (\<exists>s'. live e w' sid s' \<and> status s' = Error \<and> error s' = Some m
              \<and> finalReport s' = finalReport s)"
proof -
  let ?w0 = "w\<lparr>tracker := newProgressTracker (length getAllSignals) (length REPORT_BLUEPRINT)\<rparr>"
  let ?sg = "s\<lparr>status := Generating\<rparr>"
  let ?u = "noUpdate\<lparr>u_status := Some Error, u_error := Some m\<rparr>"
  have l0: "live e ?w0 sid s" using assms(1) by simp
  from runStages_staged[OF l0 assms(2), of schedule] obtain w3 where
    w3: "staged e sid ?sg fx w3"
    "runStages e schedule sid s ?w0
          = thenDo (synthesizeFinal e sid w3)
              (\<lambda>w. (Inr (), callback completedUpdate
                        (storeUpdate e sid (noUpdate\<lparr>u_status := Some Completed\<rparr>) w)))" by blast
  obtain r4 w4 where c4: "synthesizeFinal e sid w3 = (r4, w4)" by (cases "synthesizeFinal e sid w3")
  have fmt: "\<exists>formatted. formatCategoryReportsForFinal (llm e) reports = Inr formatted" for reports
    using assms(3) by blast
  have syn: "synthesizeFinalReport (llm e) input = Inl m" for input
    using assms(4) by blast
  from synthesizeFinal_fails[OF w3(1) fmt syn] c4
  have r4: "r4 = Inl m" and st4: "staged e sid ?sg fx w4" by simp_all
  then obtain s4 where s4: "live e w4 sid s4" "frame s4 = frame ?sg"
    unfolding staged_def by blast
  have "generate e schedule sid w = (Inl m, storeUpdate e sid ?u w4)"
    by (simp add: generate_live[OF assms(1)] w3(2) c4 r4 thenDo_def)
  then have r: "r = Inl m" and w': "w' = storeUpdate e sid ?u w4" using assms(5) by simp_all
  have m: "m \<noteq> []" using synthesizeFinalReport_message[OF syn] .
  have l': "live e w' sid (applyUpdates s4 ?u)" unfolding w' by (rule live_storeUpdate[OF s4(1)])
  have "finalReport s4 = finalReport s" using s4(2) by (simp add: frame_def)
  then have "status (applyUpdates s4 ?u) = Error" "error (applyUpdates s4 ?u) = Some m"
    "finalReport (applyUpdates s4 ?u) = finalReport s"
    using m by (simp_all add: applyUpdates_error)
  with l' r show ?thesis by blast
qed

theorem final_synthesis_failure_aborts_witness:
  "fst (generate (exampleEnv\<lparr>llm := brokenSynthesis\<rparr>) [0, 1] ''s1'' (worldWith exampleSession))
     = Inl ''Failed to synthesize final report: Error: 500 Internal Server Error''
   \<and> (\<exists>s'. live (exampleEnv\<lparr>llm := brokenSynthesis\<rparr>)
              (snd (generate (exampleEnv\<lparr>llm := brokenSynthesis\<rparr>) [0, 1] ''s1'' (worldWith exampleSession)))
              ''s1'' s'
         \<and> status s' = Error
         \<and> error s' = Some ''Failed to synthesize final report: Error: 500 Internal Server Error''
         \<and> finalReport s' = None)"
proof -
  let ?e = "exampleEnv\<lparr>llm := brokenSynthesis\<rparr>"
  have l: "live ?e (worldWith exampleSession) ''s1'' exampleSession"
    by (rule live_example) (simp_all add: exampleSession_def)
  have f: "primaryFixture (api ?e) (fixtureId exampleSession) = Some exampleFixture"
    by (simp add: primaryFixture_def exampleEnv_def exampleApi_def)
  have fmt: "\<forall>reports. \<exists>formatted. formatCategoryReportsForFinal (llm ?e) reports = Inr formatted"
    by (simp add: brokenSynthesis_def exampleCompletion_def)
  have syn: "\<forall>input. synthesizeFinalReport (llm ?e) input
      = Inl ''Failed to synthesize final report: Error: 500 Internal Server Error''"
    by (simp add: brokenSynthesis_def exampleCompletion_def synthesizeFinalReport_def
          createFinalChain_def getChatModel_def truthyStr_def)
  have n: "finalReport exampleSession = None" by (simp add: exampleSession_def)
  from final_synthesis_failure_aborts[OF l f fmt syn surjective_pairing, of "[0, 1]"]
  show ?thesis unfolding n .
qed

subsection \<open>The status of a session\<close>




end
